theory Spec2Isabelle
  imports Main "HOL-Library.Word" "HOL-Library.AList" "HOL-Library.Sublist"
begin

section \<open>Data model\<close>

text \<open>
  Errors of the store are told apart by their Go type (\<open>*store.ErrNotFound\<close>,
  \<open>*store.ErrInternal\<close>); every other error is \<open>ErrOther\<close> with its message. A Go
  \<open>error\<close> value is an \<open>error option\<close>, \<open>None\<close> being \<open>nil\<close>.
\<close>

datatype error = ErrNotFound | ErrInternal | ErrOther string

text \<open>
  What a call does besides returning: it returns a value, it panics (a nil pointer is
  dereferenced), or it blocks forever on a channel operation.
\<close>

datatype 'a outcome = Returns 'a | Panics | Blocks

text \<open>
  The fields of \<open>corev2.Entity\<close>, \<open>corev2.Check\<close> and \<open>corev2.Event\<close> that eventd
  reads or writes. \<open>Ttl\<close>, \<open>Executed\<close> and \<open>Timestamp\<close> are \<open>int64\<close> in Go and are
  modelled as \<open>int\<close> (they are only compared and copied; the one subtraction on them is
  wrapped explicitly below); \<open>Status\<close> and \<open>Interval\<close> are \<open>uint32\<close>. An event
  always has an entity once it is validated or stored; its check is a pointer that may be nil.
\<close>

record Entity =
  Entity_Namespace :: string
  Entity_Name :: string
  EntityClass :: string

record Check =
  Check_Name :: string
  Check_Namespace :: string
  Command :: string
  Interval :: "32 word"
  Ttl :: int
  RoundRobin :: bool
  Status :: "32 word"
  State :: string
  Executed :: int
  Silenced :: "string list"
  IsSilenced :: bool
  Output :: string

record CheckConfig =
  Config_Name :: string
  Config_Namespace :: string
  Config_Command :: string
  Config_Interval :: "32 word"
  Config_Ttl :: int
  Config_RoundRobin :: bool

record Event =
  Event_Entity :: Entity
  Event_Check :: "Check option"
  Event_Metrics :: "string option"
  Timestamp :: int

text \<open>A message on the event or keepalive channel is an \<open>interface{}\<close>.\<close>

datatype msg = Msg_Event Event | Msg_Other

definition deletedEventSentinel :: int where
  "deletedEventSentinel = -1"

text \<open>
  Constants declared in api/core/v2 and backend/keepalived: \<open>corev2.KeepaliveCheckName\<close>
  and \<open>keepalived.KeepaliveCheckName\<close> are both the name that \<open>dead\<close> spells out as
  the literal \<open>"keepalive"\<close>; \<open>corev2.EntityProxyClass\<close> and
  \<open>corev2.EventFailingState\<close> are the class and state names.
\<close>

definition KeepaliveCheckName :: string where
  "KeepaliveCheckName = ''keepalive''"

definition EntityProxyClass :: string where
  "EntityProxyClass = ''proxy''"

definition EventFailingState :: string where
  "EventFailingState = ''failing''"

section \<open>Collaborators and the daemon's state\<close>

text \<open>
  Every call eventd makes on a collaborator is appended to a log, so that "is called",
  "is never invoked" and "before" are statements about the log.
\<close>

datatype call =
    Store_Get string string
  | GetEventByEntityCheck string string string
  | UpdateEvent Event
  | Alive string int
  | Bury string
  | Publish "Event option"
  | Logger_Println "Event option"
  | ErrChan_Wait

text \<open>
  The collaborators answer as functions of their arguments: the store
  (\<open>store.Get\<close> of an entity config by namespace and name, returning only the error here;
  \<open>GetEventByEntityCheck\<close> by context namespace, entity and check; \<open>UpdateEvent\<close>), the bus,
  the liveness switches, the event's own \<open>Validate\<close>, the helpers \<open>createProxyEntity\<close>
  (which replaces the event's entity) and \<open>getSilenced\<close> (which yields the silenced entries
  attached to the check), and the clock, read by the n-th call of \<open>time.Now().Unix()\<close>.
  The two helpers are in files of the package other than eventd.go and are parameters here.
  The answers do not change during one call of \<open>handleMessage\<close> or \<open>dead\<close>.
\<close>

record World =
  Validate :: "Event \<Rightarrow> error option"
  createProxyEntity :: "Event \<Rightarrow> Entity \<times> error option"
  getSilenced :: "Event \<Rightarrow> string list"
  store_Get :: "string \<Rightarrow> string \<Rightarrow> error option"
  eventStore_GetEventByEntityCheck :: "string \<Rightarrow> string \<Rightarrow> string \<Rightarrow> Event option \<times> error option"
  eventStore_UpdateEvent :: "Event \<Rightarrow> Event option \<times> Event option \<times> error option"
  bus_Publish :: "Event option \<Rightarrow> error option"
  switches_Alive :: "string \<Rightarrow> int \<Rightarrow> error option"
  switches_Bury :: "string \<Rightarrow> error option"
  time_Now :: "nat \<Rightarrow> int"

text \<open>
  The mutable part of \<open>Eventd\<close>: \<open>errChan\<close> is \<open>make(chan error, 1)\<close>, so it holds at
  most one error; \<open>calls\<close> is the log.
\<close>

record Daemon =
  errChan :: "error option"
  calls :: "call list"

definition record_call :: "call \<Rightarrow> Daemon \<Rightarrow> Daemon" where
  "record_call c d = d\<lparr>calls := calls d @ [c]\<rparr>"

text \<open>
  What the rest of the process does around one \<open>select\<close> on \<open>errChan\<close>: whether the
  context is already done when the select is evaluated, which ready case the runtime picks
  when both are ready, and, when neither is ready, what happens first while the goroutine
  is parked.
\<close>

datatype wakeup = Drained | Cancelled | Never

record Sched =
  ctx_done :: bool
  pick_send :: bool
  while_parked :: wakeup

text \<open>
  \<open>select { case e.errChan <- err: case <-ctx.Done(): }\<close>, the form used by \<open>dead\<close>,
  \<open>handleFailure\<close> and \<open>createFailedCheckEvent\<close>. It has no \<open>default\<close> case: with the
  channel full and the context live the goroutine parks until the owner receives from the
  channel or the context is cancelled.
\<close>

definition errChan_send_or_done :: "Sched \<Rightarrow> error \<Rightarrow> Daemon \<Rightarrow> unit outcome \<times> Daemon" where
  "errChan_send_or_done s err d =
     (if errChan d = None then
        (if ctx_done s \<and> \<not> pick_send s then (Returns (), d)
         else (Returns (), d\<lparr>errChan := Some err\<rparr>))
      else if ctx_done s then (Returns (), d)
      else (case while_parked s of
              Drained \<Rightarrow> (Returns (), (record_call ErrChan_Wait d)\<lparr>errChan := Some err\<rparr>)
            | Cancelled \<Rightarrow> (Returns (), record_call ErrChan_Wait d)
            | Never \<Rightarrow> (Blocks, record_call ErrChan_Wait d)))"

text \<open>
  \<open>select { case e.errChan <- errors.New(...): default: }\<close>, the form used by the worker
  loop when a channel is closed: the send happens only if the channel has room.
\<close>

definition errChan_try_send :: "error \<Rightarrow> Daemon \<Rightarrow> Daemon" where
  "errChan_try_send err d = (if errChan d = None then d\<lparr>errChan := Some err\<rparr> else d)"

text \<open>\<open>if _, ok := err.(*store.ErrInternal); ok { select {...} }\<close>\<close>

definition forward_if_internal :: "Sched \<Rightarrow> error \<Rightarrow> Daemon \<Rightarrow> unit outcome \<times> Daemon" where
  "forward_if_internal s err d =
     (case err of ErrInternal \<Rightarrow> errChan_send_or_done s err d | _ \<Rightarrow> (Returns (), d))"

section \<open>Strings and paths\<close>

text \<open>\<open>strings.Split(s, sep)\<close> for a one-byte separator: one more part than separators.\<close>

fun strings_Split :: "string \<Rightarrow> char \<Rightarrow> string list" where
  "strings_Split [] sep = [[]]"
| "strings_Split (c # cs) sep =
     (if c = sep then [] # strings_Split cs sep
      else (case strings_Split cs sep of
              [] \<Rightarrow> [[c]]
            | p # ps \<Rightarrow> (c # p) # ps))"

fun intercalate :: "string \<Rightarrow> string list \<Rightarrow> string" where
  "intercalate sep [] = []"
| "intercalate sep [x] = x"
| "intercalate sep (x # y # ys) = x @ sep @ intercalate sep (y # ys)"

text \<open>
  Go's \<open>path.Clean\<close> and \<open>path.Join\<close> (standard library), by their documented rules:
  \<open>Join\<close> ignores empty elements, joins the rest with slashes and cleans the result;
  \<open>Clean\<close> collapses repeated slashes, drops \<open>.\<close> elements, resolves \<open>..\<close> against
  the element before it (dropping it at the root) and returns \<open>.\<close> for an empty result.
\<close>

fun clean_step :: "bool \<Rightarrow> string list \<Rightarrow> string \<Rightarrow> string list" where
  "clean_step rooted [] c = (if c = ''..'' then (if rooted then [] else [''..'']) else [c])"
| "clean_step rooted (t # ts) c =
     (if c = ''..'' then (if t = ''..'' then c # t # ts else ts) else c # t # ts)"

definition path_Clean :: "string \<Rightarrow> string" where
  "path_Clean p =
     (let rooted = (case p of [] \<Rightarrow> False | c # _ \<Rightarrow> c = CHR ''/'');
          elems = filter (\<lambda>c. c \<noteq> [] \<and> c \<noteq> ''.'') (strings_Split p CHR ''/'');
          kept = rev (foldl (clean_step rooted) [] elems);
          out = (if rooted then ''/'' else []) @ intercalate ''/'' kept
      in if out = [] then ''.'' else out)"

definition path_Join :: "string list \<Rightarrow> string" where
  "path_Join elem =
     (let used = filter (\<lambda>e. e \<noteq> []) elem
      in if used = [] then [] else path_Clean (intercalate ''/'' used))"

section \<open>Switch keys\<close>

text \<open>\<open>eventKey\<close> dereferences \<open>event.Check\<close>: a nil check panics.\<close>

definition eventKey :: "Event \<Rightarrow> string outcome" where
  "eventKey event =
     (case Event_Check event of
        None \<Rightarrow> Panics
      | Some check \<Rightarrow>
          if RoundRobin check \<and> EntityClass (Event_Entity event) \<noteq> EntityProxyClass
          then Returns (path_Join [Check_Namespace check, Check_Name check])
          else Returns (path_Join [Entity_Namespace (Event_Entity event), Check_Name check,
                                   Entity_Name (Event_Entity event)]))"

definition parseKey :: "string \<Rightarrow> error + (string \<times> string \<times> string)" where
  "parseKey key =
     (let parts = strings_Split key CHR ''/'' in
      if length parts = 2 then Inr (parts ! 0, parts ! 1, [])
      else if length parts = 3 then Inr (parts ! 0, parts ! 1, parts ! 2)
      else Inl (ErrOther ''bad key''))"

section \<open>Processing one message\<close>

text \<open>\<open>publishEventWithDuration\<close>: the bus call, its result returned as the error.\<close>

definition publishEventWithDuration ::
  "World \<Rightarrow> Event \<Rightarrow> Daemon \<Rightarrow> error option \<times> Daemon" where
  "publishEventWithDuration w event d =
     (bus_Publish w (Some event), record_call (Publish (Some event)) d)"

text \<open>
  The condition of the \<open>else if\<close> at the switch:
  \<open>(prevEvent != nil && prevEvent.Check.Ttl > 0) || event.Check.Ttl == deletedEventSentinel\<close>,
  evaluated left to right; a stored previous event without a check panics.
\<close>

definition ttl_disabled :: "Event option \<Rightarrow> Check \<Rightarrow> bool outcome" where
  "ttl_disabled prevEvent check =
     (case prevEvent of
        None \<Rightarrow> Returns (Ttl check = deletedEventSentinel)
      | Some prev \<Rightarrow>
          (case Event_Check prev of
             None \<Rightarrow> Panics
           | Some prevCheck \<Rightarrow>
               Returns (Ttl prevCheck > 0 \<or> Ttl check = deletedEventSentinel)))"

text \<open>
  The second half of \<open>handleMessage\<close>, from \<open>e.Logger.Println(event)\<close> after the store
  update to the final publish. \<open>event\<close> and \<open>prevEvent\<close> are what \<open>UpdateEvent\<close>
  returned.
\<close>

definition handleMessage_switch ::
  "World \<Rightarrow> Event option \<Rightarrow> Event option \<Rightarrow> Daemon
   \<Rightarrow> (Event option \<times> error option) outcome \<times> Daemon" where
  "handleMessage_switch w stored prevEvent d0 =
     (let d = record_call (Logger_Println stored) d0 in
      case stored of
        None \<Rightarrow> (Panics, d)
      | Some event \<Rightarrow>
         (case eventKey event of
            Panics \<Rightarrow> (Panics, d)
          | Blocks \<Rightarrow> (Blocks, d)
          | Returns switchKey \<Rightarrow>
             (case Event_Check event of
                None \<Rightarrow> (Panics, d)
              | Some check \<Rightarrow>
                 if Check_Name check = KeepaliveCheckName then
                   (case publishEventWithDuration w event d of
                      (err, d') \<Rightarrow> (Returns (Some event, err), d'))
                 else if Ttl check > 0 then
                   (let d1 = record_call (Alive switchKey (Ttl check)) d in
                    case switches_Alive w switchKey (Ttl check) of
                      Some err \<Rightarrow> (Returns (Some event, Some err), d1)
                    | None \<Rightarrow>
                       (case publishEventWithDuration w event d1 of
                          (err, d') \<Rightarrow> (Returns (Some event, err), d')))
                 else
                   (case ttl_disabled prevEvent check of
                      Panics \<Rightarrow> (Panics, d)
                    | Blocks \<Rightarrow> (Blocks, d)
                    | Returns True \<Rightarrow>
                       (let d1 = record_call (Bury switchKey) d in
                        case switches_Bury w switchKey of
                          Some buryErr \<Rightarrow>
                            (case publishEventWithDuration w event d1 of
                               (err, d') \<Rightarrow> (Returns (Some event, err), d'))
                        | None \<Rightarrow>
                            (case publishEventWithDuration w event d1 of
                               (err, d') \<Rightarrow> (Returns (Some event, err), d')))
                    | Returns False \<Rightarrow>
                       (case publishEventWithDuration w event d of
                          (err, d') \<Rightarrow> (Returns (Some event, err), d'))))))"

text \<open>
  \<open>getSilenced(ctx, event, e.silencedCache)\<close> followed by
  \<open>if len(event.Check.Silenced) > 0 { event.Check.IsSilenced = true }\<close>, on an event
  whose check is \<open>check\<close>.
\<close>

definition attach_silenced :: "World \<Rightarrow> Event \<Rightarrow> Check \<Rightarrow> Event" where
  "attach_silenced w event check =
     (let silenced = getSilenced w event;
          check1 = check\<lparr>Silenced := silenced\<rparr>;
          check2 = (if length silenced > 0 then check1\<lparr>IsSilenced := True\<rparr> else check1)
      in event\<lparr>Event_Check := Some check2\<rparr>)"

text \<open>
  \<open>handleMessage\<close>. The deferred function only records metrics and is left out. The
  result is the pair \<open>(fEvent, fErr)\<close>.
\<close>

definition handleMessage ::
  "World \<Rightarrow> msg \<Rightarrow> Daemon \<Rightarrow> (Event option \<times> error option) outcome \<times> Daemon" where
  "handleMessage w m d =
     (case m of
        Msg_Other \<Rightarrow>
          (Returns (None, Some (ErrOther ''received non-Event on event channel'')), d)
      | Msg_Event event \<Rightarrow>
         (case Validate w event of
            Some err \<Rightarrow> (Returns (Some event, Some err), d)
          | None \<Rightarrow>
             (case Event_Check event of
                None \<Rightarrow>
                  (case publishEventWithDuration w event
                          (record_call (Logger_Println (Some event)) d) of
                     (err, d') \<Rightarrow> (Returns (Some event, err), d'))
              | Some check \<Rightarrow>
                 (case createProxyEntity w event of
                    (entity, Some err) \<Rightarrow>
                      (Returns (Some (event\<lparr>Event_Entity := entity\<rparr>), Some err), d)
                  | (entity, None) \<Rightarrow>
                     (let event1 = attach_silenced w (event\<lparr>Event_Entity := entity\<rparr>) check;
                          d1 = record_call (UpdateEvent event1) d
                      in case eventStore_UpdateEvent w event1 of
                           (stored, prevEvent, Some err) \<Rightarrow> (Returns (stored, Some err), d1)
                         | (stored, prevEvent, None) \<Rightarrow>
                             handleMessage_switch w stored prevEvent d1)))))"

section \<open>Switch callbacks\<close>

text \<open>\<open>alive\<close> only logs: it returns false whether or not the key parses.\<close>

definition alive :: "string \<Rightarrow> bool" where
  "alive key = (case parseKey key of Inl err \<Rightarrow> False | Inr parsed \<Rightarrow> False)"

text \<open>\<open>fmt.Sprintf("%d", n)\<close> for an \<open>int64\<close>, and Go's wrapping \<open>int64\<close> subtraction.\<close>

function decimal :: "nat \<Rightarrow> string" where
  "decimal n = (if n < 10 then [''0123456789'' ! n]
                else decimal (n div 10) @ [''0123456789'' ! (n mod 10)])"
  by pat_completeness auto
termination
  by (relation "measure id") auto

definition fmt_d :: "int \<Rightarrow> string" where
  "fmt_d i = (if i < 0 then CHR ''-'' # decimal (nat (- i)) else decimal (nat i))"

definition sub_int64 :: "int \<Rightarrow> int \<Rightarrow> int" where
  "sub_int64 a b = (a - b + 2 ^ 63) mod 2 ^ 64 - 2 ^ 63"

text \<open>
  Modelled from the spec: \<open>corev2.NewCheckConfigFromFace\<close>, \<open>corev2.NewCheck\<close> and
  \<open>Check.MergeWith\<close> are in api/core/v2, which is not among the sources. The spec
  says of them: "derive a new Check value from it -- copy configuration fields, then
  override [...]; merge remaining unset fields from the original check (so config-only
  fields like command/interval survive)". The check under construction is therefore a
  record whose fields are set or still unset: \<open>NewCheck\<close> sets the configuration fields
  (name, namespace, command, interval, TTL, round-robin flag), an assignment sets its field,
  and \<open>MergeWith\<close> takes every field that is still unset from the original check.
\<close>

record CheckDraft =
  Draft_Name :: "string option"
  Draft_Namespace :: "string option"
  Draft_Command :: "string option"
  Draft_Interval :: "32 word option"
  Draft_Ttl :: "int option"
  Draft_RoundRobin :: "bool option"
  Draft_Status :: "32 word option"
  Draft_State :: "string option"
  Draft_Executed :: "int option"
  Draft_Silenced :: "string list option"
  Draft_IsSilenced :: "bool option"
  Draft_Output :: "string option"

definition NewCheckConfigFromFace :: "Check \<Rightarrow> CheckConfig" where
  "NewCheckConfigFromFace c =
     \<lparr>Config_Name = Check_Name c, Config_Namespace = Check_Namespace c,
      Config_Command = Command c, Config_Interval = Interval c,
      Config_Ttl = Ttl c, Config_RoundRobin = RoundRobin c\<rparr>"

definition NewCheck :: "CheckConfig \<Rightarrow> CheckDraft" where
  "NewCheck c =
     \<lparr>Draft_Name = Some (Config_Name c), Draft_Namespace = Some (Config_Namespace c),
      Draft_Command = Some (Config_Command c), Draft_Interval = Some (Config_Interval c),
      Draft_Ttl = Some (Config_Ttl c), Draft_RoundRobin = Some (Config_RoundRobin c),
      Draft_Status = None, Draft_State = None, Draft_Executed = None,
      Draft_Silenced = None, Draft_IsSilenced = None, Draft_Output = None\<rparr>"

definition MergeWith :: "CheckDraft \<Rightarrow> Check \<Rightarrow> Check" where
  "MergeWith c prev =
     \<lparr>Check_Name = (case Draft_Name c of None \<Rightarrow> Check_Name prev | Some v \<Rightarrow> v),
      Check_Namespace = (case Draft_Namespace c of None \<Rightarrow> Check_Namespace prev | Some v \<Rightarrow> v),
      Command = (case Draft_Command c of None \<Rightarrow> Command prev | Some v \<Rightarrow> v),
      Interval = (case Draft_Interval c of None \<Rightarrow> Interval prev | Some v \<Rightarrow> v),
      Ttl = (case Draft_Ttl c of None \<Rightarrow> Ttl prev | Some v \<Rightarrow> v),
      RoundRobin = (case Draft_RoundRobin c of None \<Rightarrow> RoundRobin prev | Some v \<Rightarrow> v),
      Status = (case Draft_Status c of None \<Rightarrow> Status prev | Some v \<Rightarrow> v),
      State = (case Draft_State c of None \<Rightarrow> State prev | Some v \<Rightarrow> v),
      Executed = (case Draft_Executed c of None \<Rightarrow> Executed prev | Some v \<Rightarrow> v),
      Silenced = (case Draft_Silenced c of None \<Rightarrow> Silenced prev | Some v \<Rightarrow> v),
      IsSilenced = (case Draft_IsSilenced c of None \<Rightarrow> IsSilenced prev | Some v \<Rightarrow> v),
      Output = (case Draft_Output c of None \<Rightarrow> Output prev | Some v \<Rightarrow> v)\<rparr>"

text \<open>
  \<open>createFailedCheckEvent\<close>. \<open>namespace\<close> is the namespace bound into the context by
  the caller. The event fetched from the store replaces the argument; a nil event or a nil
  check on it is dereferenced, which panics.
\<close>

definition createFailedCheckEvent ::
  "World \<Rightarrow> Sched \<Rightarrow> string \<Rightarrow> Event \<Rightarrow> Daemon \<Rightarrow> (error + Event) outcome \<times> Daemon" where
  "createFailedCheckEvent w s namespace event d =
     (case Event_Check event of
        None \<Rightarrow> (Returns (Inl (ErrOther ''event does not contain a check'')), d)
      | Some check0 \<Rightarrow>
         (let entityName = Entity_Name (Event_Entity event);
              d1 = record_call (GetEventByEntityCheck namespace entityName (Check_Name check0)) d
          in case eventStore_GetEventByEntityCheck w namespace entityName (Check_Name check0) of
               (fetched, Some err) \<Rightarrow>
                 (case forward_if_internal s err d1 of
                    (Returns u, d2) \<Rightarrow> (Returns (Inl err), d2)
                  | (Panics, d2) \<Rightarrow> (Panics, d2)
                  | (Blocks, d2) \<Rightarrow> (Blocks, d2))
             | (None, None) \<Rightarrow> (Panics, d1)
             | (Some stored, None) \<Rightarrow>
                 (case Event_Check stored of
                    None \<Rightarrow> (Panics, d1)
                  | Some storedCheck \<Rightarrow>
                     (let check = NewCheck (NewCheckConfigFromFace storedCheck);
                          output = ''Last check execution was ''
                                   @ fmt_d (sub_int64 (time_Now w 0) (Executed storedCheck))
                                   @ '' seconds ago'';
                          check1 = check\<lparr>Draft_Output := Some output,
                                         Draft_Status := Some 1,
                                         Draft_State := Some EventFailingState,
                                         Draft_Executed := Some (time_Now w 1)\<rparr>;
                          check2 = MergeWith check1 storedCheck
                      in (Returns (Inr (stored\<lparr>Timestamp := time_Now w 2,
                                                Event_Check := Some check2\<rparr>)), d1)))))"

text \<open>\<open>handleFailure\<close>: \<open>event.Check.Name\<close> is read first, so a nil check panics.\<close>

definition handleFailure ::
  "World \<Rightarrow> Sched \<Rightarrow> Event \<Rightarrow> Daemon \<Rightarrow> error option outcome \<times> Daemon" where
  "handleFailure w s event d =
     (case Event_Check event of
        None \<Rightarrow> (Panics, d)
      | Some check \<Rightarrow>
         if Check_Name check = KeepaliveCheckName then (Returns None, d)
         else
          (case createFailedCheckEvent w s (Entity_Namespace (Event_Entity event)) event d of
             (Panics, d1) \<Rightarrow> (Panics, d1)
           | (Blocks, d1) \<Rightarrow> (Blocks, d1)
           | (Returns (Inl err), d1) \<Rightarrow> (Returns (Some err), d1)
           | (Returns (Inr failedCheckEvent), d1) \<Rightarrow>
              (let d2 = record_call (UpdateEvent failedCheckEvent) d1 in
               case eventStore_UpdateEvent w failedCheckEvent of
                 (updatedEvent, prevEvent, Some err) \<Rightarrow>
                   (case forward_if_internal s err d2 of
                      (Returns u, d3) \<Rightarrow> (Returns (Some err), d3)
                    | (Panics, d3) \<Rightarrow> (Panics, d3)
                    | (Blocks, d3) \<Rightarrow> (Blocks, d3))
               | (updatedEvent, prevEvent, None) \<Rightarrow>
                   (Returns (bus_Publish w updatedEvent),
                    record_call (Publish updatedEvent)
                      (record_call (Logger_Println updatedEvent) d2)))))"

text \<open>
  \<open>keepalive != nil && keepalive.Check.Status > 0\<close>: a stored keepalive event without a
  check panics.
\<close>

definition keepalive_failing :: "Event option \<Rightarrow> bool outcome" where
  "keepalive_failing keepalive =
     (case keepalive of
        None \<Rightarrow> Returns False
      | Some k \<Rightarrow> (case Event_Check k of None \<Rightarrow> Panics | Some c \<Rightarrow> Returns (Status c > 0)))"

text \<open>
  \<open>dead\<close>. \<open>ctx_err\<close> is \<open>ctx.Err() != nil\<close> on entry; \<open>s\<close> describes the process
  around the one \<open>select\<close> that an invocation can reach. The result is \<open>bury\<close>.
\<close>

definition dead ::
  "World \<Rightarrow> Sched \<Rightarrow> bool \<Rightarrow> string \<Rightarrow> bool \<Rightarrow> Daemon \<Rightarrow> bool outcome \<times> Daemon" where
  "dead w s ctx_err key leader d =
     (if ctx_err then (Returns False, d)
      else
       (case parseKey key of
          Inl err \<Rightarrow> (Returns False, d)
        | Inr (namespace, check, entity) \<Rightarrow>
           if entity = [] then (Returns True, d)
           else
            (let d1 = record_call (Store_Get namespace entity) d in
             case store_Get w namespace entity of
               Some ErrNotFound \<Rightarrow> (Returns True, d1)
             | Some err \<Rightarrow>
                 (case forward_if_internal s err d1 of
                    (Returns u, d2) \<Rightarrow> (Returns False, d2)
                  | (Panics, d2) \<Rightarrow> (Panics, d2)
                  | (Blocks, d2) \<Rightarrow> (Blocks, d2))
             | None \<Rightarrow>
                (let d2 = record_call (GetEventByEntityCheck namespace entity ''keepalive'') d1 in
                 case eventStore_GetEventByEntityCheck w namespace entity ''keepalive'' of
                   (keepalive, Some err) \<Rightarrow> (Returns False, d2)
                 | (keepalive, None) \<Rightarrow>
                    (case keepalive_failing keepalive of
                       Panics \<Rightarrow> (Panics, d2)
                     | Blocks \<Rightarrow> (Blocks, d2)
                     | Returns True \<Rightarrow> (Returns True, d2)
                     | Returns False \<Rightarrow>
                        (let d3 = record_call (GetEventByEntityCheck namespace entity check) d2 in
                         case eventStore_GetEventByEntityCheck w namespace entity check of
                           (event, Some err) \<Rightarrow>
                             (case forward_if_internal s err d3 of
                                (Returns u, d4) \<Rightarrow> (Returns False, d4)
                              | (Panics, d4) \<Rightarrow> (Panics, d4)
                              | (Blocks, d4) \<Rightarrow> (Blocks, d4))
                         | (None, None) \<Rightarrow> (Returns True, d3)
                         | (Some event, None) \<Rightarrow>
                             if leader then
                               (case handleFailure w s event d3 of
                                  (Returns err, d4) \<Rightarrow> (Returns False, d4)
                                | (Panics, d4) \<Rightarrow> (Panics, d4)
                                | (Blocks, d4) \<Rightarrow> (Blocks, d4))
                             else (Returns False, d3)))))))"

section \<open>The worker loop\<close>

text \<open>
  A buffered channel: the queued messages, oldest first, and whether it is closed. A
  receive on a closed channel still yields the queued messages first.
\<close>

record Chan =
  buf :: "msg list"
  closed :: bool

text \<open>
  What the rest of the process does between two evaluations of the inner \<open>select\<close>: the
  messages other goroutines have sent to the keepalive channel since the last one, how many
  messages the other workers (which receive from the same channel) have taken from its
  front, whether the context is done, and which case the runtime picks when both a receive
  and \<open>ctx.Done()\<close> are ready.
\<close>

record Tick =
  arrivals :: "msg list"
  taken :: nat
  tick_done :: bool
  tick_pick_recv :: bool

text \<open>The keepalive channel as this worker finds it at its next select.\<close>

definition chan_after :: "Tick \<Rightarrow> Chan \<Rightarrow> Chan" where
  "chan_after t ch = ch\<lparr>buf := drop (taken t) (buf ch @ arrivals t)\<rparr>"


datatype worker_next = Continue | Exit



text \<open>The body of \<open>case msg, ok := <-e.keepaliveChan\<close> of the outer select.\<close>

definition on_keepaliveChan ::
  "World \<Rightarrow> msg option \<Rightarrow> msg list \<Rightarrow> Daemon \<Rightarrow> worker_next outcome \<times> msg list \<times> Daemon" where
  "on_keepaliveChan w received handled d =
     (case received of
        None \<Rightarrow> (Returns Exit, handled, errChan_try_send (ErrOther ''event channel closed'') d)
      | Some m \<Rightarrow>
         (case handleMessage w m d of
            (Returns r, d') \<Rightarrow> (Returns Continue, handled @ [m], d')
          | (Panics, d') \<Rightarrow> (Panics, handled @ [m], d')
          | (Blocks, d') \<Rightarrow> (Blocks, handled @ [m], d')))"

section \<open>Construction and the size of the worker pool\<close>

text \<open>
  The fields of \<open>Config\<close> and \<open>Eventd\<close> that \<open>New\<close> adjusts. Go's \<open>int\<close> is
  modelled as \<open>int\<close>: the values are compared and counted up to, never overflowed.
\<close>

record Config =
  BufferSize :: int
  WorkerCount :: int

record Eventd =
  workerCount :: int
  bufferSize :: int

type_synonym Option = "Eventd \<Rightarrow> error + Eventd"

text \<open>\<open>for _, o := range opts\<close>: the first option that fails aborts \<open>New\<close>.\<close>

fun apply_opts :: "Option list \<Rightarrow> Eventd \<Rightarrow> error + Eventd" where
  "apply_opts [] e = Inr e"
| "apply_opts (opt # opts) e =
     (case opt e of Inl err \<Rightarrow> Inl err | Inr e' \<Rightarrow> apply_opts opts e')"

definition New :: "Config \<Rightarrow> Option list \<Rightarrow> error + Eventd" where
  "New c opts =
     (let c1 = (if BufferSize c = 0 then c\<lparr>BufferSize := 1\<rparr> else c);
          c2 = (if WorkerCount c1 = 0 then c1\<lparr>WorkerCount := 1\<rparr> else c1);
          e = \<lparr>workerCount = WorkerCount c2, bufferSize = BufferSize c2\<rparr>
      in apply_opts opts e)"

text \<open>
  \<open>startHandlers\<close>: \<open>for i := 0; i < e.workerCount; i++ { go func() {...}() }\<close>. The
  model counts the goroutines the loop starts.
\<close>

function startHandlers_loop :: "int \<Rightarrow> int \<Rightarrow> nat \<Rightarrow> nat" where
  "startHandlers_loop i wc launched =
     (if i < wc then startHandlers_loop (i + 1) wc (Suc launched) else launched)"
  by pat_completeness auto
termination
  by (relation "measure (\<lambda>(i, wc, launched). nat (wc - i))") auto

definition startHandlers :: "Eventd \<Rightarrow> nat" where
  "startHandlers e = startHandlers_loop 0 (workerCount e) 0"

section \<open>Entity configs in the PostgreSQL store\<close>

text \<open>
  A Go \<open>map[string]string\<close> is a list of entries with distinct keys, read through
  \<open>map_of\<close>; the order of the list is the order in which \<open>range\<close> happens to visit
  the entries. A nil map is \<open>None\<close>.
\<close>

type_synonym gomap = "(string \<times> string) list"

record ObjectMeta =
  Meta_Namespace :: string
  Meta_Name :: string
  Labels :: "gomap option"
  Annotations :: "gomap option"
  CreatedBy :: string

record EntityConfig =
  Metadata :: "ObjectMeta option"
  Config_EntityClass :: string
  User :: string
  Subscriptions :: "string list"
  Deregister :: bool
  Deregistration_Handler :: string
  KeepaliveHandlers :: "string list"
  Redact :: "string list"

record 'b EntityConfigWrapper =
  W_Namespace :: string
  W_Name :: string
  W_Selectors :: 'b
  W_Annotations :: 'b
  W_CreatedBy :: string
  W_EntityClass :: string
  W_User :: string
  W_Subscriptions :: "string list"
  W_Deregister :: bool
  W_Deregistration :: string
  W_KeepaliveHandlers :: "string list"
  W_Redact :: "string list"

text \<open>
  \<open>encoding/json\<close> (standard library) on string maps, taken as a parameter:
  \<open>json_Marshal\<close> encodes a map into the byte representation \<open>'b\<close>, \<open>json_Unmarshal\<close>
  decodes into a fresh empty map and may fail.
\<close>

record 'b Json =
  json_Marshal :: "gomap option \<Rightarrow> 'b"
  json_Unmarshal :: "'b \<Rightarrow> error + gomap option"

definition strings_HasPrefix :: "string \<Rightarrow> string \<Rightarrow> bool" where
  "strings_HasPrefix s pre = (take (length pre) s = pre)"

definition strings_TrimPrefix :: "string \<Rightarrow> string \<Rightarrow> string" where
  "strings_TrimPrefix s pre = (if strings_HasPrefix s pre then drop (length pre) s else s)"

text \<open>\<open>for k, v := range m\<close> over a possibly nil map.\<close>

definition range_of :: "gomap option \<Rightarrow> gomap" where
  "range_of m = (case m of None \<Rightarrow> [] | Some kvs \<Rightarrow> kvs)"

text \<open>
  The loop of \<open>WrapEntityConfig\<close>:
  \<open>k = fmt.Sprintf("labels.%s", k); selectorMap[k] = v\<close> for every label.
\<close>

definition selectorMap_of :: "gomap option \<Rightarrow> gomap" where
  "selectorMap_of labels =
     foldl (\<lambda>selectorMap (k, v). AList.update (''labels.'' @ k) v selectorMap) [] (range_of labels)"

definition WrapEntityConfig :: "'b Json \<Rightarrow> EntityConfig \<Rightarrow> 'b EntityConfigWrapper outcome" where
  "WrapEntityConfig j cfg =
     (case Metadata cfg of
        None \<Rightarrow> Panics
      | Some meta \<Rightarrow>
          Returns
            \<lparr>W_Namespace = Meta_Namespace meta,
             W_Name = Meta_Name meta,
             W_Selectors = json_Marshal j (Some (selectorMap_of (Labels meta))),
             W_Annotations = json_Marshal j (Annotations meta),
             W_CreatedBy = CreatedBy meta,
             W_EntityClass = Config_EntityClass cfg,
             W_User = User cfg,
             W_Subscriptions = Subscriptions cfg,
             W_Deregister = Deregister cfg,
             W_Deregistration = Deregistration_Handler cfg,
             W_KeepaliveHandlers = KeepaliveHandlers cfg,
             W_Redact = Redact cfg\<rparr>)"

text \<open>
  The loop of \<open>unwrapIntoEntityConfig\<close>: every selector whose key starts with
  \<open>labels.\<close> becomes a label under the key without that prefix.
\<close>

definition labels_of :: "gomap option \<Rightarrow> gomap" where
  "labels_of selectors =
     foldl (\<lambda>labels (k, v).
              if strings_HasPrefix k ''labels.''
              then AList.update (strings_TrimPrefix k ''labels.'') v labels
              else labels)
       [] (range_of selectors)"

text \<open>
  \<open>unwrapIntoEntityConfig\<close> writes into \<open>cfg\<close> and returns an error; the model returns
  the configuration as it is left together with the error.
\<close>

definition unwrapIntoEntityConfig ::
  "'b Json \<Rightarrow> 'b EntityConfigWrapper \<Rightarrow> EntityConfig \<Rightarrow> EntityConfig \<times> error option" where
  "unwrapIntoEntityConfig j e cfg =
     (let meta = \<lparr>Meta_Namespace = W_Namespace e, Meta_Name = W_Name e,
                  Labels = Some [], Annotations = Some [], CreatedBy = W_CreatedBy e\<rparr>;
          cfg1 = cfg\<lparr>Metadata := Some meta\<rparr>
      in case json_Unmarshal j (W_Selectors e) of
           Inl err \<Rightarrow> (cfg1, Some (ErrOther ''error unwrapping entity config''))
         | Inr selectors \<Rightarrow>
            (case json_Unmarshal j (W_Annotations e) of
               Inl err \<Rightarrow> (cfg1, Some (ErrOther ''error unwrapping entity config''))
             | Inr annotations \<Rightarrow>
                (cfg\<lparr>Metadata := Some (meta\<lparr>Labels := Some (labels_of selectors),
                                             Annotations := annotations\<rparr>),
                     Config_EntityClass := W_EntityClass e,
                     User := W_User e,
                     Subscriptions := W_Subscriptions e,
                     Deregister := W_Deregister e,
                     Deregistration_Handler := W_Deregistration e,
                     KeepaliveHandlers := W_KeepaliveHandlers e,
                     Redact := W_Redact e\<rparr>, None)))"

text \<open>\<open>Unwrap\<close>: \<open>cfg := new(corev3.EntityConfig)\<close>, then \<open>unwrapIntoEntityConfig\<close>.\<close>

definition Unwrap :: "'b Json \<Rightarrow> 'b EntityConfigWrapper \<Rightarrow> EntityConfig \<times> error option" where
  "Unwrap j e =
     unwrapIntoEntityConfig j e
       \<lparr>Metadata = None, Config_EntityClass = [], User = [], Subscriptions = [],
        Deregister = False, Deregistration_Handler = [], KeepaliveHandlers = [], Redact = []\<rparr>"

text \<open>
  The codec decodes what it encoded for map \<open>m\<close>: decoding succeeds and yields a map
  with the same entries.
\<close>

definition json_roundtrips :: "'b Json \<Rightarrow> gomap \<Rightarrow> bool" where
  "json_roundtrips j m =
     (\<exists>m'. json_Unmarshal j (json_Marshal j (Some m)) = Inr (Some m')
            \<and> distinct (map fst m') \<and> map_of m' = map_of m)"

section \<open>Predicates used in the statements\<close>

text \<open>
  A name that \<open>path.Join\<close> leaves as it is: not empty, without a slash, and neither
  \<open>.\<close> nor \<open>..\<close>.
\<close>

definition plain_name :: "string \<Rightarrow> bool" where
  "plain_name s = (s \<noteq> [] \<and> CHR ''/'' \<notin> set s \<and> s \<noteq> ''.'' \<and> s \<noteq> ''..'')"

text \<open>
  The event store answers a query for (namespace, entity, check) with nothing or with an
  event that has a check and carries that very identity.
\<close>

definition store_consistent :: "World \<Rightarrow> bool" where
  "store_consistent w =
     (\<forall>ns entity check event err.
        eventStore_GetEventByEntityCheck w ns entity check = (Some event, err) \<longrightarrow>
          (\<exists>c. Event_Check event = Some c \<and> Check_Name c = check)
          \<and> Entity_Name (Event_Entity event) = entity
          \<and> Entity_Namespace (Event_Entity event) = ns)"

text \<open>\<open>UpdateEvent\<close> hands back an event with the check name it was given.\<close>

definition update_keeps_check_name :: "World \<Rightarrow> bool" where
  "update_keeps_check_name w =
     (\<forall>event stored prev err.
        eventStore_UpdateEvent w event = (Some stored, prev, err) \<longrightarrow>
          map_option Check_Name (Event_Check stored) = map_option Check_Name (Event_Check event))"

text \<open>
  The components of a switch key, read off the key itself: the number of slashes, and the
  n-th field between them. A key has two components when it has one slash and three when it
  has two.
\<close>

definition slashes :: "string \<Rightarrow> nat" where
  "slashes key = count_list key CHR ''/''"

fun key_field :: "nat \<Rightarrow> string \<Rightarrow> string" where
  "key_field 0 key = takeWhile (\<lambda>c. c \<noteq> CHR ''/'') key"
| "key_field (Suc n) key = key_field n (drop 1 (dropWhile (\<lambda>c. c \<noteq> CHR ''/'') key))"

definition key_fields :: "string \<Rightarrow> (string \<times> string \<times> string) option" where
  "key_fields key =
     (if slashes key = 1 then Some (key_field 0 key, key_field 1 key, [])
      else if slashes key = 2 then Some (key_field 0 key, key_field 1 key, key_field 2 key)
      else None)"

text \<open>
  What an expiry finds, in the order of the description of \<open>dead\<close>: a malformed key; a
  key without entity component (round-robin); the entity config gone (not found) or not
  retrievable; the keepalive event not retrievable, or there with a nonzero status; the
  event of the entity and check not retrievable, gone, or found.
\<close>

datatype finding =
    Malformed
  | NoEntityComponent
  | EntityGone
  | EntityError error
  | KeepaliveError error
  | KeepaliveFailing
  | EventError error
  | EventGone
  | EventFound string string string Event

definition keepalive_nonzero :: "Event option \<Rightarrow> bool" where
  "keepalive_nonzero keepalive =
     (case keepalive of
        None \<Rightarrow> False
      | Some k \<Rightarrow> (case Event_Check k of None \<Rightarrow> False | Some c \<Rightarrow> Status c \<noteq> 0))"

definition dead_finding :: "World \<Rightarrow> string \<Rightarrow> finding" where
  "dead_finding w key =
     (case key_fields key of
        None \<Rightarrow> Malformed
      | Some (namespace, check, entity) \<Rightarrow>
          if entity = [] then NoEntityComponent
          else
           (case store_Get w namespace entity of
              Some err \<Rightarrow> if err = ErrNotFound then EntityGone else EntityError err
            | None \<Rightarrow>
               (case eventStore_GetEventByEntityCheck w namespace entity ''keepalive'' of
                  (keepalive, Some err) \<Rightarrow> KeepaliveError err
                | (keepalive, None) \<Rightarrow>
                    if keepalive_nonzero keepalive then KeepaliveFailing
                    else
                     (case eventStore_GetEventByEntityCheck w namespace entity check of
                        (event, Some err) \<Rightarrow> EventError err
                      | (None, None) \<Rightarrow> EventGone
                      | (Some event, None) \<Rightarrow> EventFound namespace check entity event))))"

text \<open>
  A sender on the fatal-error channel stays parked forever: the channel is full, the
  context is live, and neither a receive from the channel nor a cancellation happens.
\<close>

definition parked :: "Sched \<Rightarrow> Daemon \<Rightarrow> bool" where
  "parked s d = (errChan d \<noteq> None \<and> \<not> ctx_done s \<and> while_parked s = Never)"

text \<open>What \<open>dead\<close> returns after it has had to forward \<open>err\<close> if it is internal.\<close>

definition after_forwarding :: "Sched \<Rightarrow> Daemon \<Rightarrow> error \<Rightarrow> bool outcome" where
  "after_forwarding s d err = (if err = ErrInternal \<and> parked s d then Blocks else Returns False)"

text \<open>The daemon after the three lookups of \<open>dead\<close>.\<close>

definition looked_up :: "string \<Rightarrow> string \<Rightarrow> string \<Rightarrow> Daemon \<Rightarrow> Daemon" where
  "looked_up namespace check entity d =
     d\<lparr>calls := calls d @ [Store_Get namespace entity,
                           GetEventByEntityCheck namespace entity ''keepalive'',
                           GetEventByEntityCheck namespace entity check]\<rparr>"

text \<open>
  The value of \<open>n - m\<close> as an \<open>int64\<close>: the integer in the \<open>int64\<close> range that differs
  from \<open>n - m\<close> by a multiple of \<open>2^64\<close>.
\<close>

definition is_int64_difference :: "int \<Rightarrow> int \<Rightarrow> int \<Rightarrow> bool" where
  "is_int64_difference x n m =
     (- (2 ^ 63) \<le> x \<and> x < 2 ^ 63 \<and> (x - (n - m)) mod 2 ^ 64 = 0)"

text \<open>Reading a decimal numeral with an optional minus sign.\<close>

definition digit_value :: "char \<Rightarrow> nat" where
  "digit_value c = of_char c - 48"

definition is_digit :: "char \<Rightarrow> bool" where
  "is_digit c = (48 \<le> (of_char c :: nat) \<and> (of_char c :: nat) \<le> 57)"

definition read_digits :: "string \<Rightarrow> nat option" where
  "read_digits s =
     (if s \<noteq> [] \<and> list_all is_digit s
      then Some (foldl (\<lambda>acc c. 10 * acc + digit_value c) 0 s) else None)"

definition read_decimal :: "string \<Rightarrow> int option" where
  "read_decimal s =
     (case s of
        [] \<Rightarrow> None
      | c # cs \<Rightarrow> if c = CHR ''-'' then map_option (\<lambda>n. - int n) (read_digits cs)
                  else map_option int (read_digits s))"




text \<open>The calls that arm or disarm a liveness switch.\<close>

definition is_switch_call :: "call \<Rightarrow> bool" where
  "is_switch_call c = (case c of Alive key timeout \<Rightarrow> True | Bury key \<Rightarrow> True | _ \<Rightarrow> False)"

text \<open>Whether the previous stored event, if there was one, had a TTL above zero.\<close>

definition prev_ttl_positive :: "Event option \<Rightarrow> bool" where
  "prev_ttl_positive prevEvent =
     (case prevEvent of
        None \<Rightarrow> False
      | Some prev \<Rightarrow> (case Event_Check prev of None \<Rightarrow> False | Some pc \<Rightarrow> Ttl pc > 0))"

section \<open>Concrete inputs\<close>

definition entity_web :: Entity where
  "entity_web = \<lparr>Entity_Namespace = ''default'', Entity_Name = ''web'', EntityClass = ''agent''\<rparr>"

definition check_cpu :: Check where
  "check_cpu =
     \<lparr>Check_Name = ''cpu'', Check_Namespace = ''default'', Command = ''check-cpu'',
      Interval = 60, Ttl = 30, RoundRobin = False, Status = 0, State = ''passing'',
      Executed = 1000, Silenced = [], IsSilenced = False, Output = ''ok''\<rparr>"

definition event_cpu :: Event where
  "event_cpu = \<lparr>Event_Entity = entity_web, Event_Check = Some check_cpu,
                Event_Metrics = None, Timestamp = 1000\<rparr>"

definition event_metrics :: Event where
  "event_metrics = \<lparr>Event_Entity = entity_web, Event_Check = None,
                    Event_Metrics = Some ''cpu.idle 97'', Timestamp = 1000\<rparr>"

definition event_keepalive :: Event where
  "event_keepalive = \<lparr>Event_Entity = entity_web,
                      Event_Check = Some (check_cpu\<lparr>Check_Name := ''keepalive''\<rparr>),
                      Event_Metrics = None, Timestamp = 1000\<rparr>"

text \<open>
  A world in which every collaborator succeeds: the store holds the entity config and the
  event of \<open>cpu\<close> on \<open>web\<close>, \<open>UpdateEvent\<close> stores what it is given and reports no
  previous event, and the clock reads 2500, 2501, 2502.
\<close>

definition world_ok :: World where
  "world_ok =
     \<lparr>Validate = (\<lambda>event. None),
      createProxyEntity = (\<lambda>event. (Event_Entity event, None)),
      getSilenced = (\<lambda>event. []),
      store_Get = (\<lambda>namespace name. None),
      eventStore_GetEventByEntityCheck =
        (\<lambda>namespace entity check.
           if namespace = ''default'' \<and> entity = ''web'' \<and> check = ''cpu''
           then (Some event_cpu, None) else (None, None)),
      eventStore_UpdateEvent = (\<lambda>event. (Some event, None, None)),
      bus_Publish = (\<lambda>event. None),
      switches_Alive = (\<lambda>key timeout. None),
      switches_Bury = (\<lambda>key. None),
      time_Now = (\<lambda>n. 2500 + int n)\<rparr>"

text \<open>
  The check of \<open>cpu\<close> with its TTL switched off, and a world in which the store reports
  the earlier event with TTL 30 as the previous one and \<open>Bury\<close> fails.
\<close>

definition event_cpu_off :: Event where
  "event_cpu_off = event_cpu\<lparr>Event_Check := Some (check_cpu\<lparr>Ttl := 0\<rparr>)\<rparr>"

definition world_bury_fails :: World where
  "world_bury_fails =
     world_ok\<lparr>eventStore_UpdateEvent := (\<lambda>event. (Some event, Some event_cpu, None)),
              switches_Bury := (\<lambda>key. Some (ErrOther ''switch unavailable''))\<rparr>"

definition daemon_idle :: Daemon where
  "daemon_idle = \<lparr>errChan = None, calls = []\<rparr>"

definition sched_live :: Sched where
  "sched_live = \<lparr>ctx_done = False, pick_send = True, while_parked = Never\<rparr>"

text \<open>
  The same world with a store whose \<open>Get\<close> fails with an internal error; a daemon whose
  fatal-error channel already holds an error; and a process that receives from that
  channel while a sender is parked on it.
\<close>

definition world_store_down :: World where
  "world_store_down = world_ok\<lparr>store_Get := (\<lambda>namespace name. Some ErrInternal)\<rparr>"

definition daemon_reported :: Daemon where
  "daemon_reported = \<lparr>errChan = Some (ErrOther ''event channel closed''), calls = []\<rparr>"

definition sched_drained :: Sched where
  "sched_drained = \<lparr>ctx_done = False, pick_send = True, while_parked = Drained\<rparr>"




text \<open>
  A codec that represents a map by itself, and an entity config with one label and one
  annotation.
\<close>

definition json_id :: "(gomap option) Json" where
  "json_id = \<lparr>json_Marshal = (\<lambda>m. m), json_Unmarshal = (\<lambda>b. Inr b)\<rparr>"

definition cfg_web :: EntityConfig where
  "cfg_web =
     \<lparr>Metadata = Some \<lparr>Meta_Namespace = ''default'', Meta_Name = ''web'',
                        Labels = Some [(''region'', ''eu'')],
                        Annotations = Some [(''owner'', ''ops'')],
                        CreatedBy = ''admin''\<rparr>,
      Config_EntityClass = ''agent'', User = ''agent'', Subscriptions = [''linux''],
      Deregister = True, Deregistration_Handler = ''dereg'',
      KeepaliveHandlers = [''slack''], Redact = [''password'']\<rparr>"

section \<open>The size of the worker pool\<close>

lemma startHandlers_loop_count:
  "startHandlers_loop i wc n = n + nat (wc - i)"
proof (induction i wc n rule: startHandlers_loop.induct)
  case (1 i wc launched)
  show ?case
  proof (cases "i < wc")
    case True
    with "1" show ?thesis
      by (simp del: startHandlers_loop.simps add: startHandlers_loop.simps[of i wc launched])
  next
    case False
    then show ?thesis by simp
  qed
qed

lemma apply_opts_keep:
  "apply_opts opts e = Inr e' \<Longrightarrow>
   \<forall>opt\<in>set opts. \<forall>x y. opt x = Inr y \<longrightarrow> workerCount y = workerCount x \<Longrightarrow>
   workerCount e' = workerCount e"
proof (induction opts arbitrary: e)
  case Nil
  then show ?case by simp
next
  case (Cons opt opts)
  then show ?case by (fastforce split: sum.splits)
qed

text \<open>
  C9, as amended. \<open>New\<close> replaces only a worker count of zero ("not configured") by 1.
  For every configuration whose worker count is not negative, and options that leave the
  worker count alone, the effective worker count is at least 1: zero becomes 1, a positive
  count is kept, and \<open>startHandlers\<close> starts exactly that many processing loops.
\<close>

theorem New_worker_count:
  assumes "New c opts = Inr e"
    and "\<forall>opt\<in>set opts. \<forall>x y. opt x = Inr y \<longrightarrow> workerCount y = workerCount x"
    and "0 \<le> WorkerCount c"
  shows "1 \<le> workerCount e
         \<and> workerCount e = (if WorkerCount c = 0 then 1 else WorkerCount c)
         \<and> int (startHandlers e) = workerCount e"
proof -
  from assms(1) have "workerCount e = (if WorkerCount c = 0 then 1 else WorkerCount c)"
    using apply_opts_keep[OF _ assms(2)] by (auto simp: New_def Let_def split: if_splits)
  with assms(3) show ?thesis
    by (simp add: startHandlers_def startHandlers_loop_count del: startHandlers_loop.simps)
qed

theorem New_worker_count_witness:
  "New \<lparr>BufferSize = 0, WorkerCount = 0\<rparr> [] = Inr \<lparr>workerCount = 1, bufferSize = 1\<rparr>
   \<and> 1 \<le> workerCount \<lparr>workerCount = 1, bufferSize = 1\<rparr>
   \<and> int (startHandlers \<lparr>workerCount = 1, bufferSize = 1\<rparr>) = 1"
proof -
  have n: "New \<lparr>BufferSize = 0, WorkerCount = 0\<rparr> [] = Inr \<lparr>workerCount = 1, bufferSize = 1\<rparr>"
    by (simp add: New_def)
  show ?thesis using New_worker_count[OF n] n by simp
qed

text \<open>
  C9 as stated fails: a worker count of \<open>-1\<close> is not replaced, the effective count is
  below 1 and \<open>startHandlers\<close> starts no processing loop at all.
\<close>

theorem New_negative_worker_count:
  "New \<lparr>BufferSize = 1, WorkerCount = - 1\<rparr> [] = Inr \<lparr>workerCount = - 1, bufferSize = 1\<rparr>
   \<and> \<not> 1 \<le> workerCount \<lparr>workerCount = - 1, bufferSize = 1\<rparr>
   \<and> startHandlers \<lparr>workerCount = - 1, bufferSize = 1\<rparr> = 0"
  by (simp add: New_def startHandlers_def)

section \<open>Switch keys\<close>

lemma strings_Split_plain: "sep \<notin> set a \<Longrightarrow> strings_Split a sep = [a]"
  by (induction a) auto

lemma strings_Split_append:
  "sep \<notin> set a \<Longrightarrow> strings_Split (a @ sep # r) sep = a # strings_Split r sep"
  by (induction a) auto


lemma path_Join_three:
  assumes "plain_name a" "plain_name b" "plain_name c"
  shows "path_Join [a, b, c] = a @ ''/'' @ b @ ''/'' @ c"
proof -
  from assms have ne: "a \<noteq> []" "b \<noteq> []" "c \<noteq> []"
    and ns: "CHR ''/'' \<notin> set a" "CHR ''/'' \<notin> set b" "CHR ''/'' \<notin> set c"
    and nd: "a \<noteq> ''.''" "b \<noteq> ''.''" "c \<noteq> ''.''" "a \<noteq> ''..''" "b \<noteq> ''..''" "c \<noteq> ''..''"
    by (simp_all add: plain_name_def)
  have sp: "strings_Split (a @ CHR ''/'' # b @ CHR ''/'' # c) CHR ''/'' = [a, b, c]"
    using ns by (simp add: strings_Split_append strings_Split_plain)
  have rooted:
    "(case a @ CHR ''/'' # b @ CHR ''/'' # c of [] \<Rightarrow> False | c # x \<Rightarrow> c = CHR ''/'') = False"
    using ne ns by (cases a) auto
  show ?thesis
    using ne nd by (simp add: path_Join_def path_Clean_def sp rooted Let_def)
qed




section \<open>Processing one message\<close>

text \<open>
  C4. For every valid event without a check, \<open>handleMessage\<close> logs the event and
  publishes it as it is: the only calls it makes are the logger's and the bus's, so the
  store's \<open>UpdateEvent\<close> and the switches' \<open>Alive\<close> and \<open>Bury\<close> are not invoked, and
  it returns the same event with the result of the publish.
\<close>

theorem handleMessage_metrics_only:
  assumes "Validate w event = None" and "Event_Check event = None"
  shows "handleMessage w (Msg_Event event) d =
           (Returns (Some event, bus_Publish w (Some event)),
            d\<lparr>calls := calls d @ [Logger_Println (Some event), Publish (Some event)]\<rparr>)"
  using assms
  by (simp add: handleMessage_def publishEventWithDuration_def record_call_def)

theorem handleMessage_metrics_only_witness:
  "handleMessage world_ok (Msg_Event event_metrics) daemon_idle =
     (Returns (Some event_metrics, None),
      \<lparr>errChan = None,
       calls = [Logger_Println (Some event_metrics), Publish (Some event_metrics)]\<rparr>)"
  using handleMessage_metrics_only[of world_ok event_metrics daemon_idle]
  by (simp add: world_ok_def event_metrics_def daemon_idle_def)

lemma handleMessage_reaches_switch:
  assumes "Validate w event = None" and "Event_Check event = Some check0"
    and "createProxyEntity w event = (entity, None)"
    and "eventStore_UpdateEvent w (attach_silenced w (event\<lparr>Event_Entity := entity\<rparr>) check0)
           = (stored, prevEvent, None)"
  shows "handleMessage w (Msg_Event event) d =
           handleMessage_switch w stored prevEvent
             (record_call (UpdateEvent (attach_silenced w (event\<lparr>Event_Entity := entity\<rparr>) check0)) d)"
  using assms by (simp add: handleMessage_def Let_def)

lemma handleMessage_switch_ttl:
  assumes "Event_Check stored = Some check" and "Check_Name check \<noteq> KeepaliveCheckName"
    and "eventKey stored = Returns key"
    and "\<forall>prev. prevEvent = Some prev \<longrightarrow> Event_Check prev \<noteq> None"
  shows "handleMessage_switch w (Some stored) prevEvent d =
     (if Ttl check > 0 then
        (case switches_Alive w key (Ttl check) of
           Some err \<Rightarrow>
             (Returns (Some stored, Some err),
              d\<lparr>calls := calls d @ [Logger_Println (Some stored), Alive key (Ttl check)]\<rparr>)
         | None \<Rightarrow>
             (Returns (Some stored, bus_Publish w (Some stored)),
              d\<lparr>calls := calls d @ [Logger_Println (Some stored), Alive key (Ttl check),
                                    Publish (Some stored)]\<rparr>))
      else if prev_ttl_positive prevEvent \<or> Ttl check = deletedEventSentinel then
        (Returns (Some stored, bus_Publish w (Some stored)),
         d\<lparr>calls := calls d @ [Logger_Println (Some stored), Bury key, Publish (Some stored)]\<rparr>)
      else
        (Returns (Some stored, bus_Publish w (Some stored)),
         d\<lparr>calls := calls d @ [Logger_Println (Some stored), Publish (Some stored)]\<rparr>))"
  using assms
  by (auto simp: handleMessage_switch_def Let_def publishEventWithDuration_def record_call_def
      ttl_disabled_def prev_ttl_positive_def split: option.splits)

lemma eventKey_event_cpu: "eventKey event_cpu = Returns ''default/cpu/web''"
proof -
  have "plain_name ''default''" "plain_name ''cpu''" "plain_name ''web''"
    by (simp_all add: plain_name_def)
  then show ?thesis
    by (simp add: eventKey_def event_cpu_def check_cpu_def entity_web_def EntityProxyClass_def
        path_Join_three)
qed

lemma attach_silenced_event_cpu:
  "attach_silenced world_ok (event_cpu\<lparr>Event_Entity := entity_web\<rparr>) check_cpu = event_cpu"
  by (simp add: attach_silenced_def world_ok_def event_cpu_def check_cpu_def)

text \<open>
  C2. For every check event that the store has merged and whose check name is not the
  keepalive name (\<open>stored\<close>, with switch key \<open>key\<close>): if its TTL is above zero,
  \<open>Alive key TTL\<close> is called, and an error of \<open>Alive\<close> is returned by \<open>handleMessage\<close>
  with no publish; otherwise, if the previous stored event had a TTL above zero or the TTL
  is the deleted sentinel, \<open>Bury key\<close> is called and the event is published whatever
  \<open>Bury\<close> answers; otherwise neither is called and the event is published.
\<close>

theorem handleMessage_ttl_switch:
  assumes "Validate w event = None" and "Event_Check event = Some check0"
    and "createProxyEntity w event = (entity, None)"
    and "eventStore_UpdateEvent w (attach_silenced w (event\<lparr>Event_Entity := entity\<rparr>) check0)
           = (Some stored, prevEvent, None)"
    and "Event_Check stored = Some check" and "Check_Name check \<noteq> KeepaliveCheckName"
    and "eventKey stored = Returns key"
    and "\<forall>prev. prevEvent = Some prev \<longrightarrow> Event_Check prev \<noteq> None"
  shows "handleMessage w (Msg_Event event) d =
     (let before = calls d @ [UpdateEvent (attach_silenced w (event\<lparr>Event_Entity := entity\<rparr>) check0),
                              Logger_Println (Some stored)]
      in if Ttl check > 0 then
           (case switches_Alive w key (Ttl check) of
              Some err \<Rightarrow>
                (Returns (Some stored, Some err),
                 d\<lparr>calls := before @ [Alive key (Ttl check)]\<rparr>)
            | None \<Rightarrow>
                (Returns (Some stored, bus_Publish w (Some stored)),
                 d\<lparr>calls := before @ [Alive key (Ttl check), Publish (Some stored)]\<rparr>))
         else if prev_ttl_positive prevEvent \<or> Ttl check = deletedEventSentinel then
           (Returns (Some stored, bus_Publish w (Some stored)),
            d\<lparr>calls := before @ [Bury key, Publish (Some stored)]\<rparr>)
         else
           (Returns (Some stored, bus_Publish w (Some stored)),
            d\<lparr>calls := before @ [Publish (Some stored)]\<rparr>))"
  unfolding handleMessage_reaches_switch[OF assms(1-4)]
    handleMessage_switch_ttl[OF assms(5-8)]
  by (simp add: record_call_def Let_def split: option.splits)

lemma eventKey_event_cpu_off: "eventKey event_cpu_off = Returns ''default/cpu/web''"
proof -
  have "plain_name ''default''" "plain_name ''cpu''" "plain_name ''web''"
    by (simp_all add: plain_name_def)
  then show ?thesis
    by (simp add: eventKey_def event_cpu_off_def event_cpu_def check_cpu_def entity_web_def
        EntityProxyClass_def path_Join_three)
qed

lemma attach_silenced_event_cpu_off:
  "attach_silenced world_bury_fails (event_cpu_off\<lparr>Event_Entity := entity_web\<rparr>)
     (check_cpu\<lparr>Ttl := 0\<rparr>) = event_cpu_off"
  by (simp add: attach_silenced_def world_bury_fails_def world_ok_def event_cpu_off_def
      event_cpu_def check_cpu_def)

theorem handleMessage_ttl_switch_witness:
  "handleMessage world_ok (Msg_Event event_cpu) daemon_idle =
     (Returns (Some event_cpu, None),
      \<lparr>errChan = None,
       calls = [UpdateEvent event_cpu, Logger_Println (Some event_cpu),
                Alive ''default/cpu/web'' 30, Publish (Some event_cpu)]\<rparr>)
   \<and> switches_Bury world_bury_fails ''default/cpu/web'' = Some (ErrOther ''switch unavailable'')
   \<and> handleMessage world_bury_fails (Msg_Event event_cpu_off) daemon_idle =
     (Returns (Some event_cpu_off, None),
      \<lparr>errChan = None,
       calls = [UpdateEvent event_cpu_off, Logger_Println (Some event_cpu_off),
                Bury ''default/cpu/web'', Publish (Some event_cpu_off)]\<rparr>)"
proof -
  have v: "Validate world_ok event_cpu = None" by (simp add: world_ok_def)
  have c: "Event_Check event_cpu = Some check_cpu" by (simp add: event_cpu_def)
  have p: "createProxyEntity world_ok event_cpu = (entity_web, None)"
    by (simp add: world_ok_def event_cpu_def)
  have u: "eventStore_UpdateEvent world_ok
             (attach_silenced world_ok (event_cpu\<lparr>Event_Entity := entity_web\<rparr>) check_cpu)
           = (Some event_cpu, None, None)"
    by (simp add: attach_silenced_event_cpu) (simp add: world_ok_def)
  have n: "Check_Name check_cpu \<noteq> KeepaliveCheckName"
    by (simp add: check_cpu_def KeepaliveCheckName_def)
  have pr: "\<forall>prev. (None :: Event option) = Some prev \<longrightarrow> Event_Check prev \<noteq> None" by simp
  have t: "Ttl check_cpu = 30" by (simp add: check_cpu_def)
  have a: "switches_Alive world_ok ''default/cpu/web'' 30 = None" by (simp add: world_ok_def)
  have b: "bus_Publish world_ok (Some event_cpu) = None" by (simp add: world_ok_def)
  have first: "handleMessage world_ok (Msg_Event event_cpu) daemon_idle =
     (Returns (Some event_cpu, None),
      \<lparr>errChan = None,
       calls = [UpdateEvent event_cpu, Logger_Println (Some event_cpu),
                Alive ''default/cpu/web'' 30, Publish (Some event_cpu)]\<rparr>)"
    using handleMessage_ttl_switch[OF v c p u c n eventKey_event_cpu pr, of daemon_idle]
    by (simp add: attach_silenced_event_cpu t a b daemon_idle_def)
  have v': "Validate world_bury_fails event_cpu_off = None"
    by (simp add: world_bury_fails_def world_ok_def)
  have c': "Event_Check event_cpu_off = Some (check_cpu\<lparr>Ttl := 0\<rparr>)"
    by (simp add: event_cpu_off_def)
  have p': "createProxyEntity world_bury_fails event_cpu_off = (entity_web, None)"
    by (simp add: world_bury_fails_def world_ok_def event_cpu_off_def event_cpu_def)
  have u': "eventStore_UpdateEvent world_bury_fails
             (attach_silenced world_bury_fails (event_cpu_off\<lparr>Event_Entity := entity_web\<rparr>)
                (check_cpu\<lparr>Ttl := 0\<rparr>))
           = (Some event_cpu_off, Some event_cpu, None)"
    by (simp add: attach_silenced_event_cpu_off) (simp add: world_bury_fails_def)
  have n': "Check_Name (check_cpu\<lparr>Ttl := 0\<rparr>) \<noteq> KeepaliveCheckName"
    by (simp add: check_cpu_def KeepaliveCheckName_def)
  have pr': "\<forall>prev. Some event_cpu = Some prev \<longrightarrow> Event_Check prev \<noteq> None"
    by (simp add: event_cpu_def)
  have pt: "prev_ttl_positive (Some event_cpu)"
    by (simp add: prev_ttl_positive_def event_cpu_def check_cpu_def)
  have b': "bus_Publish world_bury_fails (Some event_cpu_off) = None"
    by (simp add: world_bury_fails_def world_ok_def)
  have f: "switches_Bury world_bury_fails ''default/cpu/web'' = Some (ErrOther ''switch unavailable'')"
    by (simp add: world_bury_fails_def)
  have second: "handleMessage world_bury_fails (Msg_Event event_cpu_off) daemon_idle =
     (Returns (Some event_cpu_off, None),
      \<lparr>errChan = None,
       calls = [UpdateEvent event_cpu_off, Logger_Println (Some event_cpu_off),
                Bury ''default/cpu/web'', Publish (Some event_cpu_off)]\<rparr>)"
    using handleMessage_ttl_switch[OF v' c' p' u' c' n' eventKey_event_cpu_off pr', of daemon_idle]
    by (simp add: attach_silenced_event_cpu_off pt b' daemon_idle_def)
  show ?thesis using first second f by simp
qed

lemma attach_silenced_name:
  "map_option Check_Name (Event_Check (attach_silenced w event check)) = Some (Check_Name check)"
  by (simp add: attach_silenced_def Let_def)

lemma handleMessage_switch_keepalive:
  assumes "map_option Check_Name (Event_Check stored) = Some KeepaliveCheckName"
  shows "handleMessage_switch w (Some stored) prevEvent d =
           (Returns (Some stored, bus_Publish w (Some stored)),
            d\<lparr>calls := calls d @ [Logger_Println (Some stored), Publish (Some stored)]\<rparr>)"
  using assms
  by (auto simp: handleMessage_switch_def Let_def publishEventWithDuration_def record_call_def
      eventKey_def split: option.splits)

lemma handleMessage_switch_nil:
  "handleMessage_switch w None prevEvent d = (Panics, d\<lparr>calls := calls d @ [Logger_Println None]\<rparr>)"
  by (simp add: handleMessage_switch_def record_call_def)

text \<open>
  C6. For every event whose check name is the keepalive check name, with a store whose
  \<open>UpdateEvent\<close> keeps the check name: whatever \<open>handleMessage\<close> does, none of the calls
  it adds is an \<open>Alive\<close> or a \<open>Bury\<close>; and \<open>handleFailure\<close> returns nil at once,
  with no call to the store or the bus.
\<close>

theorem keepalive_not_ttl_tracked:
  assumes "Event_Check event = Some check" and "Check_Name check = KeepaliveCheckName"
    and "update_keeps_check_name w"
  shows "(\<exists>new. calls (snd (handleMessage w (Msg_Event event) d)) = calls d @ new
                \<and> (\<forall>c\<in>set new. \<not> is_switch_call c))
         \<and> handleFailure w s event d = (Returns None, d)"
proof
  show "handleFailure w s event d = (Returns None, d)"
    using assms(1,2) by (simp add: handleFailure_def)
next
  let ?res = "snd (handleMessage w (Msg_Event event) d)"
  show "\<exists>new. calls ?res = calls d @ new \<and> (\<forall>c\<in>set new. \<not> is_switch_call c)"
  proof (cases "Validate w event")
    case (Some err)
    then show ?thesis by (simp add: handleMessage_def)
  next
    case None
    obtain entity perr where p: "createProxyEntity w event = (entity, perr)"
      by (cases "createProxyEntity w event")
    show ?thesis
    proof (cases perr)
      case (Some err)
      with None p assms(1) show ?thesis by (simp add: handleMessage_def)
    next
      case pn: None
      let ?e1 = "attach_silenced w (event\<lparr>Event_Entity := entity\<rparr>) check"
      obtain stored prevEvent uerr where u: "eventStore_UpdateEvent w ?e1 = (stored, prevEvent, uerr)"
        by (cases "eventStore_UpdateEvent w ?e1")
      show ?thesis
      proof (cases uerr)
        case (Some err)
        with None p pn u assms(1) show ?thesis
          by (simp add: handleMessage_def Let_def record_call_def is_switch_call_def)
      next
        case un: None
        have hm: "handleMessage w (Msg_Event event) d =
                    handleMessage_switch w stored prevEvent (record_call (UpdateEvent ?e1) d)"
          using handleMessage_reaches_switch[OF None assms(1)] p pn u un by simp
        show ?thesis
        proof (cases stored)
          case sn: None
          show ?thesis unfolding hm sn handleMessage_switch_nil
            by (simp add: record_call_def is_switch_call_def)
        next
          case (Some st)
          have "map_option Check_Name (Event_Check st) = Some KeepaliveCheckName"
            using assms(3) u Some attach_silenced_name[of w "event\<lparr>Event_Entity := entity\<rparr>" check]
              assms(2)
            unfolding update_keeps_check_name_def by metis
          then show ?thesis unfolding hm Some
            by (simp add: handleMessage_switch_keepalive record_call_def is_switch_call_def)
        qed
      qed
    qed
  qed
qed

lemma world_ok_keeps: "update_keeps_check_name world_ok"
  by (simp add: update_keeps_check_name_def world_ok_def)

theorem keepalive_not_ttl_tracked_witness:
  "update_keeps_check_name world_ok
   \<and> calls (snd (handleMessage world_ok (Msg_Event event_keepalive) daemon_idle))
       = [UpdateEvent event_keepalive, Logger_Println (Some event_keepalive),
          Publish (Some event_keepalive)]
   \<and> handleFailure world_ok sched_live event_keepalive daemon_idle = (Returns None, daemon_idle)"
proof -
  have c: "Event_Check event_keepalive = Some (check_cpu\<lparr>Check_Name := ''keepalive''\<rparr>)"
    by (simp add: event_keepalive_def)
  have n: "Check_Name (check_cpu\<lparr>Check_Name := ''keepalive''\<rparr>) = KeepaliveCheckName"
    by (simp add: KeepaliveCheckName_def)
  have a: "attach_silenced world_ok (event_keepalive\<lparr>Event_Entity := entity_web\<rparr>)
             (check_cpu\<lparr>Check_Name := ''keepalive''\<rparr>) = event_keepalive"
    by (simp add: attach_silenced_def world_ok_def event_keepalive_def check_cpu_def)
  have h: "calls (snd (handleMessage world_ok (Msg_Event event_keepalive) daemon_idle))
       = [UpdateEvent event_keepalive, Logger_Println (Some event_keepalive),
          Publish (Some event_keepalive)]"
    using handleMessage_reaches_switch[of world_ok event_keepalive
        "check_cpu\<lparr>Check_Name := ''keepalive''\<rparr>" entity_web "Some event_keepalive" None daemon_idle]
      handleMessage_switch_keepalive[of event_keepalive world_ok None
        "record_call (UpdateEvent event_keepalive) daemon_idle"] c n a
    by (simp add: world_ok_def record_call_def daemon_idle_def event_keepalive_def)
  show ?thesis
    using keepalive_not_ttl_tracked[OF c n world_ok_keeps, of daemon_idle sched_live] h
      world_ok_keeps by simp
qed

section \<open>The dead callback\<close>

lemma strings_Split_length: "length (strings_Split s c) = Suc (count_list s c)"
  by (induction s) (auto split: list.splits)

lemma strings_Split_nth:
  "n \<le> count_list s CHR ''/'' \<Longrightarrow> strings_Split s CHR ''/'' ! n = key_field n s"
proof (induction s arbitrary: n)
  case Nil
  then show ?case by simp
next
  case (Cons x xs)
  show ?case
  proof (cases "x = CHR ''/''")
    case True
    show ?thesis
    proof (cases n)
      case 0
      with True show ?thesis by simp
    next
      case (Suc m)
      with True Cons.prems have "m \<le> count_list xs CHR ''/''" by simp
      from Cons.IH[OF this] True Suc show ?thesis by simp
    qed
  next
    case False
    obtain p ps where sp: "strings_Split xs CHR ''/'' = p # ps"
      using strings_Split_length[of xs "CHR ''/''"] by (cases "strings_Split xs CHR ''/''") auto
    show ?thesis
    proof (cases n)
      case 0
      from Cons.IH[of 0] sp have "p = key_field 0 xs" by simp
      with False sp 0 show ?thesis by simp
    next
      case (Suc m)
      with False Cons.prems have "Suc m \<le> count_list xs CHR ''/''" by simp
      from Cons.IH[OF this] sp have "ps ! m = key_field m (drop 1 (dropWhile (\<lambda>c. c \<noteq> CHR ''/'') xs))"
        by simp
      with False sp Suc show ?thesis by simp
    qed
  qed
qed

lemma parseKey_key_fields:
  "parseKey key = (case key_fields key of
                     None \<Rightarrow> Inl (ErrOther ''bad key'')
                   | Some parts \<Rightarrow> Inr parts)"
proof -
  have n: "\<And>n. n \<le> slashes key \<Longrightarrow> strings_Split key CHR ''/'' ! n = key_field n key"
    unfolding slashes_def by (rule strings_Split_nth)
  have l: "length (strings_Split key CHR ''/'') = Suc (slashes key)"
    unfolding slashes_def by (rule strings_Split_length)
  show ?thesis
  proof (cases "slashes key = 1")
    case True
    with n[of 0] n[of 1] l show ?thesis
      by (simp add: parseKey_def key_fields_def Let_def)
  next
    case False
    show ?thesis
    proof (cases "slashes key = 2")
      case True
      with n[of 0] n[of 1] n[of 2] l show ?thesis
        by (simp add: parseKey_def key_fields_def Let_def)
    next
      case f2: False
      with False l show ?thesis
        by (simp add: parseKey_def key_fields_def Let_def)
    qed
  qed
qed

lemma errChan_record_call [simp]: "errChan (record_call c d) = errChan d"
  by (simp add: record_call_def)

lemma parked_record_call [simp]: "parked s (record_call c d) = parked s d"
  by (simp add: parked_def)

lemma parked_looked_up [simp]: "parked s (looked_up namespace check entity d) = parked s d"
  by (simp add: parked_def looked_up_def)

lemma forward_if_internal_fst:
  "fst (forward_if_internal s err d) =
     (if err = ErrInternal \<and> parked s d then Blocks else Returns ())"
  by (cases err; cases "while_parked s")
     (auto simp: forward_if_internal_def errChan_send_or_done_def parked_def)

lemma forward_if_internal_split:
  obtains d' where "forward_if_internal s err d = (Returns (), d')"
    "\<not> (err = ErrInternal \<and> parked s d)"
  | d' where "forward_if_internal s err d = (Blocks, d')" "err = ErrInternal" "parked s d"
proof -
  obtain r d' where f: "forward_if_internal s err d = (r, d')"
    by (cases "forward_if_internal s err d")
  with forward_if_internal_fst[of s err d] that show thesis by (auto split: if_splits)
qed

lemma createFailedCheckEvent_consistent:
  assumes "Event_Check event = Some c"
    and "eventStore_GetEventByEntityCheck w ns (Entity_Name (Event_Entity event)) (Check_Name c)
           = (Some stored, None)"
    and "Event_Check stored = Some sc"
  shows "\<exists>failed. createFailedCheckEvent w s ns event d =
           (Returns (Inr failed),
            record_call (GetEventByEntityCheck ns (Entity_Name (Event_Entity event)) (Check_Name c)) d)"
  using assms by (simp add: createFailedCheckEvent_def Let_def)

lemma handleFailure_consistent:
  assumes "store_consistent w"
    and "eventStore_GetEventByEntityCheck w ns entity check = (Some event, None)"
  shows "(\<exists>err. fst (handleFailure w s event d) = Returns err)
         \<or> (fst (handleFailure w s event d) = Blocks \<and> parked s d)"
proof -
  from assms obtain c where c: "Event_Check event = Some c" "Check_Name c = check"
    and e: "Entity_Name (Event_Entity event) = entity" "Entity_Namespace (Event_Entity event) = ns"
    unfolding store_consistent_def by blast
  show ?thesis
  proof (cases "Check_Name c = KeepaliveCheckName")
    case True
    with c show ?thesis by (simp add: handleFailure_def)
  next
    case False
    from assms(2) c e
    have g: "eventStore_GetEventByEntityCheck w (Entity_Namespace (Event_Entity event))
               (Entity_Name (Event_Entity event)) (Check_Name c) = (Some event, None)"
      by simp
    from createFailedCheckEvent_consistent[OF c(1) g c(1)]
    obtain failed where cf: "createFailedCheckEvent w s (Entity_Namespace (Event_Entity event)) event d =
           (Returns (Inr failed),
            record_call (GetEventByEntityCheck (Entity_Namespace (Event_Entity event))
               (Entity_Name (Event_Entity event)) (Check_Name c)) d)" by blast
    let ?d1 = "record_call (GetEventByEntityCheck (Entity_Namespace (Event_Entity event))
               (Entity_Name (Event_Entity event)) (Check_Name c)) d"
    obtain u p uerr where u: "eventStore_UpdateEvent w failed = (u, p, uerr)"
      by (cases "eventStore_UpdateEvent w failed")
    show ?thesis
    proof (cases uerr)
      case None
      with c False cf u show ?thesis by (simp add: handleFailure_def Let_def)
    next
      case (Some err)
      show ?thesis
      proof (rule forward_if_internal_split[of s err "record_call (UpdateEvent failed) ?d1"])
        fix d' assume "forward_if_internal s err (record_call (UpdateEvent failed) ?d1) = (Returns (), d')"
        with c False cf u Some show ?thesis by (simp add: handleFailure_def Let_def)
      next
        fix d' assume "forward_if_internal s err (record_call (UpdateEvent failed) ?d1) = (Blocks, d')"
          "parked s (record_call (UpdateEvent failed) ?d1)"
        with c False cf u Some show ?thesis by (simp add: handleFailure_def Let_def)
      qed
    qed
  qed
qed

lemma keepalive_failing_consistent:
  assumes "store_consistent w"
    and "eventStore_GetEventByEntityCheck w ns entity check = (keepalive, err)"
  shows "keepalive_failing keepalive = Returns (keepalive_nonzero keepalive)"
proof (cases keepalive)
  case None
  then show ?thesis by (simp add: keepalive_failing_def keepalive_nonzero_def)
next
  case (Some k)
  with assms obtain c where "Event_Check k = Some c"
    unfolding store_consistent_def by blast
  with Some show ?thesis
    by (simp add: keepalive_failing_def keepalive_nonzero_def word_greater_zero_iff)
qed

text \<open>
  What \<open>dead\<close> does for each finding, with a store that answers consistently and a live
  context.
\<close>

lemma dead_by_finding:
  assumes sc: "store_consistent w"
  shows "dead w s False key leader d =
     (case dead_finding w key of
        Malformed \<Rightarrow> (Returns False, d)
      | NoEntityComponent \<Rightarrow> (Returns True, d)
      | EntityGone \<Rightarrow> (Returns True, record_call (Store_Get (fst (the (key_fields key)))
                            (snd (snd (the (key_fields key))))) d)
      | EntityError err \<Rightarrow>
          (after_forwarding s d err,
           snd (forward_if_internal s err
                  (record_call (Store_Get (fst (the (key_fields key)))
                     (snd (snd (the (key_fields key))))) d)))
      | KeepaliveError err \<Rightarrow>
          (Returns False,
           record_call (GetEventByEntityCheck (fst (the (key_fields key)))
                          (snd (snd (the (key_fields key)))) ''keepalive'')
             (record_call (Store_Get (fst (the (key_fields key)))
                (snd (snd (the (key_fields key))))) d))
      | KeepaliveFailing \<Rightarrow>
          (Returns True,
           record_call (GetEventByEntityCheck (fst (the (key_fields key)))
                          (snd (snd (the (key_fields key)))) ''keepalive'')
             (record_call (Store_Get (fst (the (key_fields key)))
                (snd (snd (the (key_fields key))))) d))
      | EventError err \<Rightarrow>
          (after_forwarding s d err,
           snd (forward_if_internal s err
                  (looked_up (fst (the (key_fields key))) (fst (snd (the (key_fields key))))
                     (snd (snd (the (key_fields key)))) d)))
      | EventGone \<Rightarrow>
          (Returns True,
           looked_up (fst (the (key_fields key))) (fst (snd (the (key_fields key))))
             (snd (snd (the (key_fields key)))) d)
      | EventFound namespace check entity event \<Rightarrow>
          if leader then
            (case handleFailure w s event (looked_up namespace check entity d) of
               (Returns err, d4) \<Rightarrow> (Returns False, d4)
             | (Panics, d4) \<Rightarrow> (Panics, d4)
             | (Blocks, d4) \<Rightarrow> (Blocks, d4))
          else (Returns False, looked_up namespace check entity d))"
proof (cases "key_fields key")
  case None
  then show ?thesis by (simp add: dead_def dead_finding_def parseKey_key_fields)
next
  case (Some parts)
  obtain namespace check entity where f: "parts = (namespace, check, entity)" by (cases parts)
  note kf = Some[unfolded f]
  have pk: "parseKey key = Inr (namespace, check, entity)"
    using kf by (simp add: parseKey_key_fields)
  show ?thesis
  proof (cases "entity = []")
    case True
    with pk kf show ?thesis by (simp add: dead_def dead_finding_def)
  next
    case ent: False
    let ?d1 = "record_call (Store_Get namespace entity) d"
    show ?thesis
    proof (cases "store_Get w namespace entity")
      case (Some err)
      show ?thesis
      proof (cases "err = ErrNotFound")
        case True
        with pk kf ent Some show ?thesis by (simp add: dead_def dead_finding_def)
      next
        case nf: False
        have fd: "dead_finding w key = EntityError err"
          using kf ent Some nf by (simp add: dead_finding_def)
        have dd: "dead w s False key leader d =
                    (case forward_if_internal s err ?d1 of
                       (Returns u, d2) \<Rightarrow> (Returns False, d2)
                     | (Panics, d2) \<Rightarrow> (Panics, d2)
                     | (Blocks, d2) \<Rightarrow> (Blocks, d2))"
          using pk ent Some nf by (cases err) (simp_all add: dead_def Let_def)
        show ?thesis
        proof (rule forward_if_internal_split[of s err ?d1])
          fix d' assume "forward_if_internal s err ?d1 = (Returns (), d')"
            "\<not> (err = ErrInternal \<and> parked s ?d1)"
          then show ?thesis unfolding dd fd using kf
            by (simp add: after_forwarding_def)
        next
          fix d' assume "forward_if_internal s err ?d1 = (Blocks, d')" "err = ErrInternal"
            "parked s ?d1"
          then show ?thesis unfolding dd fd using kf
            by (simp add: after_forwarding_def)
        qed
      qed
    next
      case found: None
      let ?d2 = "record_call (GetEventByEntityCheck namespace entity ''keepalive'') ?d1"
      obtain keepalive kerr where
        k: "eventStore_GetEventByEntityCheck w namespace entity ''keepalive'' = (keepalive, kerr)"
        by (cases "eventStore_GetEventByEntityCheck w namespace entity ''keepalive''")
      show ?thesis
      proof (cases kerr)
        case (Some err)
        with pk kf ent found k show ?thesis
          by (simp add: dead_def dead_finding_def Let_def)
      next
        case kok: None
        note kfail = keepalive_failing_consistent[OF sc k]
        show ?thesis
        proof (cases "keepalive_nonzero keepalive")
          case True
          with pk kf ent found k kok kfail show ?thesis
            by (simp add: dead_def dead_finding_def Let_def)
        next
          case healthy: False
          let ?d3 = "record_call (GetEventByEntityCheck namespace entity check) ?d2"
          have d3: "?d3 = looked_up namespace check entity d"
            by (simp add: looked_up_def record_call_def)
          obtain event eerr where
            e: "eventStore_GetEventByEntityCheck w namespace entity check = (event, eerr)"
            by (cases "eventStore_GetEventByEntityCheck w namespace entity check")
          show ?thesis
          proof (cases eerr)
            case (Some err)
            have fd: "dead_finding w key = EventError err"
              using kf ent found k kok healthy e Some
              by (cases event) (simp_all add: dead_finding_def)
            have dd: "dead w s False key leader d =
                    (case forward_if_internal s err ?d3 of
                       (Returns u, d2) \<Rightarrow> (Returns False, d2)
                     | (Panics, d2) \<Rightarrow> (Panics, d2)
                     | (Blocks, d2) \<Rightarrow> (Blocks, d2))"
              using pk ent found k kok kfail healthy e Some
              by (cases event) (simp_all add: dead_def Let_def)
            show ?thesis
            proof (rule forward_if_internal_split[of s err ?d3])
              fix d' assume "forward_if_internal s err ?d3 = (Returns (), d')"
                "\<not> (err = ErrInternal \<and> parked s ?d3)"
              then show ?thesis unfolding dd fd using kf
                by (simp add: after_forwarding_def d3[symmetric])
            next
              fix d' assume "forward_if_internal s err ?d3 = (Blocks, d')" "err = ErrInternal"
                "parked s ?d3"
              then show ?thesis unfolding dd fd using kf
                by (simp add: after_forwarding_def d3[symmetric])
            qed
          next
            case eok: None
            show ?thesis
            proof (cases event)
              case None
              with pk kf ent found k kok kfail healthy e eok show ?thesis
                by (simp add: dead_def dead_finding_def Let_def d3[symmetric])
            next
              case (Some ev)
              have fd: "dead_finding w key = EventFound namespace check entity ev"
                using kf ent found k kok healthy e eok Some by (simp add: dead_finding_def)
              show ?thesis
                unfolding fd using pk ent found k kok kfail healthy e eok Some
                by (simp add: dead_def Let_def d3[symmetric])
            qed
          qed
        qed
      qed
    qed
  qed
qed

lemma parseKey_three: "parseKey ''default/cpu/web'' = Inr (''default'', ''cpu'', ''web'')"
  by (simp add: parseKey_def)

lemma key_fields_three: "key_fields ''default/cpu/web'' = Some (''default'', ''cpu'', ''web'')"
  by (simp add: key_fields_def slashes_def numeral_2_eq_2)

lemma key_fields_two: "key_fields ''default/cpu'' = Some (''default'', ''cpu'', [])"
  by (simp add: key_fields_def slashes_def numeral_2_eq_2)

lemma key_fields_one: "key_fields ''default'' = None"
  by (simp add: key_fields_def slashes_def numeral_2_eq_2)

lemma world_ok_consistent: "store_consistent world_ok"
  by (simp add: store_consistent_def world_ok_def event_cpu_def check_cpu_def entity_web_def)

text \<open>
  C1, as amended. With a store that answers consistently, every invocation of \<open>dead\<close>
  does the following. If the context is already cancelled, or the key does not have two or
  three slash-separated components, it returns "do not bury" and does nothing else. If the
  key has no entity component (round-robin), it returns "bury". Otherwise it returns "bury"
  exactly when the entity config is not found, or the keepalive event exists with nonzero
  status, or no event exists for the entity and check, each as far as the lookups get. In
  every other case it returns "do not bury" if it returns at all: after an error retrieving
  the entity config, the keepalive event or the event; and when the event is found, where a
  non-leader makes no call beyond the three lookups and the leader runs \<open>handleFailure\<close>
  on the event and returns "do not bury" whatever error that yields. It fails to return only
  while an internal store error waits to be sent on the fatal-error channel, with the
  channel full, the context live, and neither a receive from the channel nor a cancellation
  ever happening.
\<close>

theorem dead_decision:
  assumes "store_consistent w"
  shows "fst (dead w s ctx_err key leader d) =
           (if ctx_err then Returns False
            else case dead_finding w key of
                   Malformed \<Rightarrow> Returns False
                 | NoEntityComponent \<Rightarrow> Returns True
                 | EntityGone \<Rightarrow> Returns True
                 | EntityError err \<Rightarrow> after_forwarding s d err
                 | KeepaliveError err \<Rightarrow> Returns False
                 | KeepaliveFailing \<Rightarrow> Returns True
                 | EventError err \<Rightarrow> after_forwarding s d err
                 | EventGone \<Rightarrow> Returns True
                 | EventFound namespace check entity event \<Rightarrow>
                     if leader \<and> fst (handleFailure w s event (looked_up namespace check entity d))
                                  = Blocks
                     then Blocks else Returns False)
         \<and> (\<forall>namespace check entity event.
               \<not> ctx_err \<and> dead_finding w key = EventFound namespace check entity event \<longrightarrow>
                 snd (dead w s ctx_err key leader d) =
                   (if leader
                    then snd (handleFailure w s event (looked_up namespace check entity d))
                    else looked_up namespace check entity d)
                 \<and> (fst (handleFailure w s event (looked_up namespace check entity d)) = Blocks
                      \<longrightarrow> parked s d))
         \<and> (ctx_err \<or> dead_finding w key = Malformed \<or> dead_finding w key = NoEntityComponent
              \<longrightarrow> snd (dead w s ctx_err key leader d) = d)"
proof (cases ctx_err)
  case True
  then show ?thesis by (simp add: dead_def)
next
  case False
  note bf = dead_by_finding[OF assms, of s key leader d]
  show ?thesis
  proof (cases "dead_finding w key")
    case (EventFound namespace check entity event)
    have g: "eventStore_GetEventByEntityCheck w namespace entity check = (Some event, None)"
      using EventFound
      by (auto simp: dead_finding_def split: option.splits prod.splits if_splits)
    from handleFailure_consistent[OF assms g, of s "looked_up namespace check entity d"]
    have hf: "(\<exists>err. fst (handleFailure w s event (looked_up namespace check entity d)) = Returns err)
              \<or> (fst (handleFailure w s event (looked_up namespace check entity d)) = Blocks
                  \<and> parked s d)"
      by simp
    obtain r d4 where h: "handleFailure w s event (looked_up namespace check entity d) = (r, d4)"
      by (cases "handleFailure w s event (looked_up namespace check entity d)")
    from hf h have "(\<exists>err. r = Returns err) \<or> (r = Blocks \<and> parked s d)" by simp
    then show ?thesis
      using False bf EventFound h by (cases r) auto
  qed (use False bf in simp_all)
qed

theorem dead_decision_witness:
  "dead world_ok sched_live False ''default/cpu/web'' False daemon_idle =
     (Returns False,
      \<lparr>errChan = None,
       calls = [Store_Get ''default'' ''web'',
                GetEventByEntityCheck ''default'' ''web'' ''keepalive'',
                GetEventByEntityCheck ''default'' ''web'' ''cpu'']\<rparr>)
   \<and> fst (dead world_ok sched_live False ''default/cpu/web'' True daemon_idle) = Returns False
   \<and> snd (dead world_ok sched_live False ''default/cpu/web'' True daemon_idle) =
       snd (handleFailure world_ok sched_live event_cpu
              \<lparr>errChan = None,
               calls = [Store_Get ''default'' ''web'',
                        GetEventByEntityCheck ''default'' ''web'' ''keepalive'',
                        GetEventByEntityCheck ''default'' ''web'' ''cpu'']\<rparr>)
   \<and> dead world_ok sched_live False ''default/cpu'' True daemon_idle = (Returns True, daemon_idle)
   \<and> dead world_ok sched_live False ''default'' True daemon_idle = (Returns False, daemon_idle)
   \<and> dead world_ok sched_live True ''default/cpu/web'' True daemon_idle
       = (Returns False, daemon_idle)"
proof -
  have f3: "dead_finding world_ok ''default/cpu/web'' = EventFound ''default'' ''cpu'' ''web'' event_cpu"
    by (simp add: dead_finding_def key_fields_three)
       (simp add: world_ok_def keepalive_nonzero_def)
  have f2: "dead_finding world_ok ''default/cpu'' = NoEntityComponent"
    by (simp add: dead_finding_def key_fields_two)
  have f1: "dead_finding world_ok ''default'' = Malformed"
    by (simp add: dead_finding_def key_fields_one)
  have np: "\<not> parked sched_live daemon_idle" by (simp add: parked_def daemon_idle_def)
  have lu: "looked_up ''default'' ''cpu'' ''web'' daemon_idle =
              \<lparr>errChan = None,
               calls = [Store_Get ''default'' ''web'',
                        GetEventByEntityCheck ''default'' ''web'' ''keepalive'',
                        GetEventByEntityCheck ''default'' ''web'' ''cpu'']\<rparr>"
    by (simp add: looked_up_def daemon_idle_def)
  note a = dead_decision[OF world_ok_consistent, of sched_live False "''default/cpu/web''" False daemon_idle]
  note b = dead_decision[OF world_ok_consistent, of sched_live False "''default/cpu/web''" True daemon_idle]
  note c = dead_decision[OF world_ok_consistent, of sched_live False "''default/cpu''" True daemon_idle]
  note e = dead_decision[OF world_ok_consistent, of sched_live False "''default''" True daemon_idle]
  note g = dead_decision[OF world_ok_consistent, of sched_live True "''default/cpu/web''" True daemon_idle]
  have A: "dead world_ok sched_live False ''default/cpu/web'' False daemon_idle =
     (Returns False, looked_up ''default'' ''cpu'' ''web'' daemon_idle)"
    using a f3 by (simp add: prod_eq_iff)
  have B: "fst (dead world_ok sched_live False ''default/cpu/web'' True daemon_idle) = Returns False
     \<and> snd (dead world_ok sched_live False ''default/cpu/web'' True daemon_idle) =
       snd (handleFailure world_ok sched_live event_cpu (looked_up ''default'' ''cpu'' ''web'' daemon_idle))"
    using b f3 np by auto
  have C: "dead world_ok sched_live False ''default/cpu'' True daemon_idle = (Returns True, daemon_idle)"
    using c f2 by (simp add: prod_eq_iff)
  have E: "dead world_ok sched_live False ''default'' True daemon_idle = (Returns False, daemon_idle)"
    using e f1 by (simp add: prod_eq_iff)
  have G: "dead world_ok sched_live True ''default/cpu/web'' True daemon_idle
       = (Returns False, daemon_idle)"
    using g by (simp add: prod_eq_iff)
  show ?thesis using A B C E G unfolding lu by simp
qed

lemma world_store_down_finding:
  "dead_finding world_store_down ''default/cpu/web'' = EntityError ErrInternal"
  by (simp add: dead_finding_def key_fields_three) (simp add: world_store_down_def)

text \<open>
  C1 as stated fails: with an internal error from the entity lookup, a full fatal-error
  channel that nobody receives from and a context that is never cancelled, \<open>dead\<close> does
  not return "do not bury": it does not return.
\<close>

theorem dead_parks_on_full_errChan:
  "dead_finding world_store_down ''default/cpu/web'' = EntityError ErrInternal
   \<and> fst (dead world_store_down sched_live False ''default/cpu/web'' True daemon_reported)
       = Blocks"
  using world_store_down_finding
  by (simp add: dead_def parseKey_three Let_def)
     (simp add: world_store_down_def forward_if_internal_def errChan_send_or_done_def
        sched_live_def daemon_reported_def)

lemma errChan_send_or_done_facts:
  assumes "errChan d1 = errChan d" and "calls d1 = calls d @ cs" and "ErrChan_Wait \<notin> set cs"
  shows "fst (errChan_send_or_done s err d1) =
           (if errChan d \<noteq> None \<and> \<not> ctx_done s \<and> while_parked s = Never
            then Blocks else Returns ())"
    and "errChan (snd (errChan_send_or_done s err d1)) =
           (if errChan d = None then (if ctx_done s \<and> \<not> pick_send s then None else Some err)
            else if \<not> ctx_done s \<and> while_parked s = Drained then Some err
            else errChan d)"
    and "ErrChan_Wait \<in> set (calls (snd (errChan_send_or_done s err d1))) \<longleftrightarrow>
           ErrChan_Wait \<in> set (calls d) \<or> (errChan d \<noteq> None \<and> \<not> ctx_done s)"
  using assms
  by (cases "while_parked s"; auto simp: errChan_send_or_done_def record_call_def)+

lemma dead_internal_eq:
  assumes "parseKey key = Inr (namespace, check, entity)" and "entity \<noteq> []"
    and "store_Get w namespace entity = Some ErrInternal
         \<or> (store_Get w namespace entity = None
            \<and> eventStore_GetEventByEntityCheck w namespace entity ''keepalive'' = (keepalive, None)
            \<and> keepalive_failing keepalive = Returns False
            \<and> eventStore_GetEventByEntityCheck w namespace entity check = (event, Some ErrInternal))"
  shows "\<exists>d1 cs. errChan d1 = errChan d \<and> calls d1 = calls d @ cs \<and> ErrChan_Wait \<notin> set cs
           \<and> dead w s False key leader d =
               (case errChan_send_or_done s ErrInternal d1 of
                  (Returns u, d') \<Rightarrow> (Returns False, d')
                | (Panics, d') \<Rightarrow> (Panics, d')
                | (Blocks, d') \<Rightarrow> (Blocks, d'))"
  using assms(3)
proof
  assume a: "store_Get w namespace entity = Some ErrInternal"
  let ?d1 = "record_call (Store_Get namespace entity) d"
  have "dead w s False key leader d =
               (case errChan_send_or_done s ErrInternal ?d1 of
                  (Returns u, d') \<Rightarrow> (Returns False, d')
                | (Panics, d') \<Rightarrow> (Panics, d')
                | (Blocks, d') \<Rightarrow> (Blocks, d'))"
    using assms(1,2) a by (simp add: dead_def Let_def forward_if_internal_def)
  moreover have "errChan ?d1 = errChan d" "calls ?d1 = calls d @ [Store_Get namespace entity]"
    by (simp_all add: record_call_def)
  ultimately show ?thesis by (intro exI[of _ ?d1] exI[of _ "[Store_Get namespace entity]"]) simp
next
  assume a: "store_Get w namespace entity = None
            \<and> eventStore_GetEventByEntityCheck w namespace entity ''keepalive'' = (keepalive, None)
            \<and> keepalive_failing keepalive = Returns False
            \<and> eventStore_GetEventByEntityCheck w namespace entity check = (event, Some ErrInternal)"
  let ?cs = "[Store_Get namespace entity, GetEventByEntityCheck namespace entity ''keepalive'',
              GetEventByEntityCheck namespace entity check]"
  let ?d1 = "record_call (GetEventByEntityCheck namespace entity check)
              (record_call (GetEventByEntityCheck namespace entity ''keepalive'')
                (record_call (Store_Get namespace entity) d))"
  have "dead w s False key leader d =
               (case errChan_send_or_done s ErrInternal ?d1 of
                  (Returns u, d') \<Rightarrow> (Returns False, d')
                | (Panics, d') \<Rightarrow> (Panics, d')
                | (Blocks, d') \<Rightarrow> (Blocks, d'))"
    using assms(1,2) a by (cases event) (simp_all add: dead_def Let_def forward_if_internal_def)
  moreover have "errChan ?d1 = errChan d" "calls ?d1 = calls d @ ?cs"
    by (simp_all add: record_call_def)
  ultimately show ?thesis by (intro exI[of _ ?d1] exI[of _ ?cs]) simp
qed

text \<open>
  C7, as amended. When the entity lookup, or the lookup of the event for the entity and
  check, fails with an internal store error, \<open>dead\<close> sends the error to the fatal-error
  channel in a \<open>select\<close> whose only other case is the context's cancellation. With room
  in the channel the error is enqueued without waiting (unless the context is done and that
  case is picked). With the channel full and the context live, the callback waits: it
  enqueues the error once the channel is drained, drops it if the context is cancelled
  first, and does not return if neither happens. In every case in which it returns, it
  returns "do not bury".
\<close>

theorem dead_forwards_internal_error:
  assumes "parseKey key = Inr (namespace, check, entity)" and "entity \<noteq> []"
    and "store_Get w namespace entity = Some ErrInternal
         \<or> (store_Get w namespace entity = None
            \<and> eventStore_GetEventByEntityCheck w namespace entity ''keepalive'' = (keepalive, None)
            \<and> keepalive_failing keepalive = Returns False
            \<and> eventStore_GetEventByEntityCheck w namespace entity check = (event, Some ErrInternal))"
  shows "fst (dead w s False key leader d) =
           (if errChan d \<noteq> None \<and> \<not> ctx_done s \<and> while_parked s = Never
            then Blocks else Returns False)
       \<and> errChan (snd (dead w s False key leader d)) =
           (if errChan d = None
            then (if ctx_done s \<and> \<not> pick_send s then None else Some ErrInternal)
            else if \<not> ctx_done s \<and> while_parked s = Drained then Some ErrInternal
            else errChan d)
       \<and> (ErrChan_Wait \<in> set (calls (snd (dead w s False key leader d))) \<longleftrightarrow>
            ErrChan_Wait \<in> set (calls d) \<or> (errChan d \<noteq> None \<and> \<not> ctx_done s))"
proof -
  from dead_internal_eq[OF assms, where s = s and leader = leader and d = d]
  obtain d1 cs where h: "errChan d1 = errChan d" "calls d1 = calls d @ cs" "ErrChan_Wait \<notin> set cs"
    and eq: "dead w s False key leader d =
               (case errChan_send_or_done s ErrInternal d1 of
                  (Returns u, d') \<Rightarrow> (Returns False, d')
                | (Panics, d') \<Rightarrow> (Panics, d')
                | (Blocks, d') \<Rightarrow> (Blocks, d'))" by blast
  obtain r d' where sd: "errChan_send_or_done s ErrInternal d1 = (r, d')"
    by (cases "errChan_send_or_done s ErrInternal d1")
  have r: "r = (if errChan d \<noteq> None \<and> \<not> ctx_done s \<and> while_parked s = Never
            then Blocks else Returns ())"
    using errChan_send_or_done_facts(1)[OF h, of s ErrInternal] sd by simp
  have f: "fst (dead w s False key leader d) =
             (if errChan d \<noteq> None \<and> \<not> ctx_done s \<and> while_parked s = Never
              then Blocks else Returns False)"
    and s: "snd (dead w s False key leader d) = d'"
    unfolding eq sd using r by (simp_all split: if_splits)
  show ?thesis
    using f errChan_send_or_done_facts(2,3)[OF h, of s ErrInternal] sd unfolding s by simp
qed

theorem dead_forwards_internal_error_witness:
  "dead world_store_down sched_live False ''default/cpu/web'' True daemon_idle =
     (Returns False, \<lparr>errChan = Some ErrInternal, calls = [Store_Get ''default'' ''web'']\<rparr>)"
proof -
  have g: "store_Get world_store_down ''default'' ''web'' = Some ErrInternal"
    by (simp add: world_store_down_def)
  have e: "''web'' \<noteq> []" by simp
  have v: "dead world_store_down sched_live False ''default/cpu/web'' True daemon_idle =
     (Returns False, \<lparr>errChan = Some ErrInternal, calls = [Store_Get ''default'' ''web'']\<rparr>)"
    by (simp add: dead_def parseKey_three Let_def)
       (simp add: world_store_down_def forward_if_internal_def errChan_send_or_done_def
          sched_live_def daemon_idle_def record_call_def)
  show ?thesis
    using dead_forwards_internal_error[OF parseKey_three e disjI1[OF g],
        where s = sched_live and leader = True and d = daemon_idle] v
    by simp
qed

text \<open>
  C7 as stated fails: with the channel already holding an error, the callback waits until
  the owner has received that error and then enqueues its own; the duplicate is not
  dropped.
\<close>

theorem dead_waits_for_errChan:
  "dead world_store_down sched_drained False ''default/cpu/web'' True daemon_reported =
     (Returns False,
      \<lparr>errChan = Some ErrInternal, calls = [Store_Get ''default'' ''web'', ErrChan_Wait]\<rparr>)"
  by (simp add: dead_def parseKey_three Let_def)
     (simp add: world_store_down_def forward_if_internal_def errChan_send_or_done_def
        sched_drained_def daemon_reported_def record_call_def)

section \<open>Failure events\<close>

lemma sub_int64_difference: "is_int64_difference (sub_int64 n m) n m"
proof -
  define a where "a = n - m + 2 ^ 63"
  have "sub_int64 n m - (n - m) = a mod 2 ^ 64 - a"
    by (simp add: sub_int64_def a_def)
  also have "\<dots> = - (a div 2 ^ 64 * 2 ^ 64)"
    using minus_mod_eq_div_mult[of a "2 ^ 64"] by simp
  finally have "(sub_int64 n m - (n - m)) mod 2 ^ 64 = 0" by simp
  moreover have "- (2 ^ 63) \<le> sub_int64 n m" "sub_int64 n m < 2 ^ 63"
    unfolding sub_int64_def
    using pos_mod_sign[of "2 ^ 64 :: int" "n - m + 2 ^ 63"]
      pos_mod_bound[of "2 ^ 64 :: int" "n - m + 2 ^ 63"] by simp_all
  ultimately show ?thesis by (simp add: is_int64_difference_def)
qed

lemma digit_nth:
  "k < 10 \<Longrightarrow> is_digit (''0123456789'' ! k) \<and> digit_value (''0123456789'' ! k) = k"
proof -
  assume "k < 10"
  then have "k \<in> {0, 1, 2, 3, 4, 5, 6, 7, 8, 9}" by auto
  then show ?thesis
    by (auto simp: is_digit_def digit_value_def)
qed

lemma decimal_digits:
  "decimal n \<noteq> [] \<and> list_all is_digit (decimal n)
   \<and> foldl (\<lambda>acc c. 10 * acc + digit_value c) 0 (decimal n) = n"
proof (induction n rule: decimal.induct)
  case (1 n)
  show ?case
  proof (cases "n < 10")
    case True
    with digit_nth[of n] show ?thesis by (simp add: decimal.simps[of n] del: decimal.simps)
  next
    case False
    have m: "n mod 10 < 10" by simp
    from False "1" digit_nth[OF m] show ?thesis
      by (simp add: decimal.simps[of n] del: decimal.simps)
  qed
qed

lemma read_digits_decimal: "read_digits (decimal n) = Some n"
  using decimal_digits[of n] by (simp add: read_digits_def del: decimal.simps)

lemma read_decimal_fmt_d: "read_decimal (fmt_d i) = Some i"
proof (cases "i < 0")
  case True
  then show ?thesis
    by (simp add: fmt_d_def read_decimal_def read_digits_decimal del: decimal.simps)
next
  case False
  obtain c cs where d: "decimal (nat i) = c # cs"
    using decimal_digits[of "nat i"] by (cases "decimal (nat i)") (auto simp del: decimal.simps)
  with decimal_digits[of "nat i"] have "is_digit c" by (simp del: decimal.simps)
  then have "c \<noteq> CHR ''-''" by (auto simp: is_digit_def)
  with False d read_digits_decimal[of "nat i"] show ?thesis
    by (simp add: fmt_d_def read_decimal_def del: decimal.simps)
qed

lemma failed_check_eq:
  "MergeWith ((NewCheck (NewCheckConfigFromFace lastCheck))
                \<lparr>Draft_Output := Some out, Draft_Status := Some 1,
                 Draft_State := Some EventFailingState, Draft_Executed := Some now\<rparr>) lastCheck
   = lastCheck\<lparr>Output := out, Status := 1, State := ''failing'', Executed := now\<rparr>"
  by (simp add: MergeWith_def NewCheck_def NewCheckConfigFromFace_def EventFailingState_def)

lemma forward_if_internal_calls:
  "\<exists>rest. calls (snd (forward_if_internal s err d)) = calls d @ rest"
  by (cases err; cases "while_parked s")
     (auto simp: forward_if_internal_def errChan_send_or_done_def record_call_def)

lemma createFailedCheckEvent_result:
  assumes "Event_Check event = Some check0"
    and "eventStore_GetEventByEntityCheck w namespace (Entity_Name (Event_Entity event))
           (Check_Name check0) = (Some stored, None)"
    and "Event_Check stored = Some lastCheck"
  shows "createFailedCheckEvent w s namespace event d =
           (Returns (Inr (stored
             \<lparr>Timestamp := time_Now w 2,
              Event_Check := Some (lastCheck
                \<lparr>Output := ''Last check execution was ''
                            @ fmt_d (sub_int64 (time_Now w 0) (Executed lastCheck))
                            @ '' seconds ago'',
                 Status := 1,
                 State := ''failing'',
                 Executed := time_Now w 1\<rparr>)\<rparr>)),
            record_call (GetEventByEntityCheck namespace (Entity_Name (Event_Entity event))
                           (Check_Name check0)) d)"
  using assms
  by (simp add: createFailedCheckEvent_def Let_def failed_check_eq del: decimal.simps)

lemma handleFailure_calls:
  assumes "Event_Check event = Some check0" and "Check_Name check0 \<noteq> KeepaliveCheckName"
    and "createFailedCheckEvent w s (Entity_Namespace (Event_Entity event)) event d
           = (Returns (Inr failed), d1)"
  shows "\<exists>rest. calls (snd (handleFailure w s event d)) = calls d1 @ [UpdateEvent failed] @ rest"
proof -
  obtain u p uerr where u: "eventStore_UpdateEvent w failed = (u, p, uerr)"
    by (cases "eventStore_UpdateEvent w failed")
  show ?thesis
  proof (cases uerr)
    case None
    with assms u show ?thesis by (simp add: handleFailure_def Let_def record_call_def)
  next
    case (Some err)
    obtain r d3 where f: "forward_if_internal s err (record_call (UpdateEvent failed) d1) = (r, d3)"
      by (cases "forward_if_internal s err (record_call (UpdateEvent failed) d1)")
    from forward_if_internal_calls[of s err "record_call (UpdateEvent failed) d1"] f
    obtain rest where "calls d3 = calls d1 @ [UpdateEvent failed] @ rest"
      by (auto simp: record_call_def)
    with assms u Some f show ?thesis
      by (cases r) (simp_all add: handleFailure_def Let_def)
  qed
qed

text \<open>
  C3. For every event with a check whose name is not the keepalive name, for which the
  store holds a last event with a check: the event that \<open>createFailedCheckEvent\<close>
  synthesizes, and that \<open>handleFailure\<close> hands to \<open>UpdateEvent\<close>, is the stored event
  with the timestamp set to the clock and a check that is the last stored check with
  \<open>Status = 1\<close>, \<open>State = failing\<close>, \<open>Executed\<close> set to the clock and the output
  \<open>Last check execution was n seconds ago\<close>, where n is the decimal numeral of the clock
  minus the stored \<open>Executed\<close>, taken as an \<open>int64\<close>; every other field of the check is
  the stored one. (The clock is read three times, for the output, \<open>Executed\<close> and the
  timestamp in turn.)
\<close>

theorem handleFailure_synthesized_event:
  assumes "Event_Check event = Some check0" and "Check_Name check0 \<noteq> KeepaliveCheckName"
    and "eventStore_GetEventByEntityCheck w (Entity_Namespace (Event_Entity event))
           (Entity_Name (Event_Entity event)) (Check_Name check0) = (Some stored, None)"
    and "Event_Check stored = Some lastCheck"
  shows "\<exists>failed check elapsed rest.
           fst (createFailedCheckEvent w s (Entity_Namespace (Event_Entity event)) event d)
             = Returns (Inr failed)
         \<and> calls (snd (handleFailure w s event d)) =
             calls d @ [GetEventByEntityCheck (Entity_Namespace (Event_Entity event))
                          (Entity_Name (Event_Entity event)) (Check_Name check0),
                        UpdateEvent failed] @ rest
         \<and> failed = stored\<lparr>Timestamp := time_Now w 2, Event_Check := Some check\<rparr>
         \<and> check = lastCheck
             \<lparr>Output := ''Last check execution was '' @ fmt_d elapsed @ '' seconds ago'',
              Status := 1,
              State := ''failing'',
              Executed := time_Now w 1\<rparr>
         \<and> is_int64_difference elapsed (time_Now w 0) (Executed lastCheck)
         \<and> read_decimal (fmt_d elapsed) = Some elapsed"
proof -
  note r = createFailedCheckEvent_result[OF assms(1,3,4), of s d]
  from handleFailure_calls[OF assms(1,2) r]
  obtain rest where "calls (snd (handleFailure w s event d)) =
      calls (record_call (GetEventByEntityCheck (Entity_Namespace (Event_Entity event))
                          (Entity_Name (Event_Entity event)) (Check_Name check0)) d)
      @ [UpdateEvent (stored
             \<lparr>Timestamp := time_Now w 2,
              Event_Check := Some (lastCheck
                \<lparr>Output := ''Last check execution was ''
                            @ fmt_d (sub_int64 (time_Now w 0) (Executed lastCheck))
                            @ '' seconds ago'',
                 Status := 1,
                 State := ''failing'',
                 Executed := time_Now w 1\<rparr>)\<rparr>)] @ rest" by blast
  with r sub_int64_difference[of "time_Now w 0" "Executed lastCheck"]
    read_decimal_fmt_d[of "sub_int64 (time_Now w 0) (Executed lastCheck)"]
  show ?thesis
    by (intro exI[of _ "sub_int64 (time_Now w 0) (Executed lastCheck)"] exI[of _ rest]
        exI[of _ "stored\<lparr>Timestamp := time_Now w 2,
              Event_Check := Some (lastCheck
                \<lparr>Output := ''Last check execution was ''
                            @ fmt_d (sub_int64 (time_Now w 0) (Executed lastCheck))
                            @ '' seconds ago'',
                 Status := 1,
                 State := ''failing'',
                 Executed := time_Now w 1\<rparr>)\<rparr>"]
        exI[of _ "lastCheck
                \<lparr>Output := ''Last check execution was ''
                            @ fmt_d (sub_int64 (time_Now w 0) (Executed lastCheck))
                            @ '' seconds ago'',
                 Status := 1,
                 State := ''failing'',
                 Executed := time_Now w 1\<rparr>"])
       (simp add: record_call_def)
qed

lemma decimal_1500: "decimal 1500 = ''1500''"
  by code_simp

theorem handleFailure_synthesized_event_witness:
  "handleFailure world_ok sched_live event_cpu daemon_idle =
     (Returns None,
      \<lparr>errChan = None,
       calls = [GetEventByEntityCheck ''default'' ''web'' ''cpu'',
                UpdateEvent (event_cpu
                  \<lparr>Timestamp := 2502,
                   Event_Check := Some (check_cpu
                     \<lparr>Output := ''Last check execution was 1500 seconds ago'',
                      Status := 1, State := ''failing'', Executed := 2501\<rparr>)\<rparr>),
                Logger_Println (Some (event_cpu
                  \<lparr>Timestamp := 2502,
                   Event_Check := Some (check_cpu
                     \<lparr>Output := ''Last check execution was 1500 seconds ago'',
                      Status := 1, State := ''failing'', Executed := 2501\<rparr>)\<rparr>)),
                Publish (Some (event_cpu
                  \<lparr>Timestamp := 2502,
                   Event_Check := Some (check_cpu
                     \<lparr>Output := ''Last check execution was 1500 seconds ago'',
                      Status := 1, State := ''failing'', Executed := 2501\<rparr>)\<rparr>))]\<rparr>)
   \<and> is_int64_difference 1500 2500 (Executed check_cpu)
   \<and> read_decimal ''1500'' = Some 1500"
proof -
  have c: "Event_Check event_cpu = Some check_cpu" by (simp add: event_cpu_def)
  have n: "Check_Name check_cpu \<noteq> KeepaliveCheckName"
    by (simp add: check_cpu_def KeepaliveCheckName_def)
  have g: "eventStore_GetEventByEntityCheck world_ok (Entity_Namespace (Event_Entity event_cpu))
             (Entity_Name (Event_Entity event_cpu)) (Check_Name check_cpu) = (Some event_cpu, None)"
    by (simp add: world_ok_def event_cpu_def entity_web_def check_cpu_def)
  have t: "time_Now world_ok 0 = 2500" "time_Now world_ok 1 = 2501"
    "time_Now world_ok 2 = 2502" "time_Now world_ok (Suc 0) = 2501"
    by (simp_all add: world_ok_def)
  have x: "Executed check_cpu = 1000" by (simp add: check_cpu_def)
  have f: "fmt_d (sub_int64 2500 1000) = ''1500''"
    by (simp add: fmt_d_def sub_int64_def decimal_1500 del: decimal.simps)
  have i: "Entity_Namespace (Event_Entity event_cpu) = ''default''"
    "Entity_Name (Event_Entity event_cpu) = ''web''" "Check_Name check_cpu = ''cpu''"
    by (simp_all add: event_cpu_def entity_web_def check_cpu_def)
  note r = createFailedCheckEvent_result[OF c g c, of sched_live daemon_idle]
  have u: "\<And>e. eventStore_UpdateEvent world_ok e = (Some e, None, None)"
    "\<And>e. bus_Publish world_ok e = None"
    by (simp_all add: world_ok_def)
  have v: "handleFailure world_ok sched_live event_cpu daemon_idle =
     (Returns None,
      \<lparr>errChan = None,
       calls = [GetEventByEntityCheck ''default'' ''web'' ''cpu'',
                UpdateEvent (event_cpu
                  \<lparr>Timestamp := 2502,
                   Event_Check := Some (check_cpu
                     \<lparr>Output := ''Last check execution was 1500 seconds ago'',
                      Status := 1, State := ''failing'', Executed := 2501\<rparr>)\<rparr>),
                Logger_Println (Some (event_cpu
                  \<lparr>Timestamp := 2502,
                   Event_Check := Some (check_cpu
                     \<lparr>Output := ''Last check execution was 1500 seconds ago'',
                      Status := 1, State := ''failing'', Executed := 2501\<rparr>)\<rparr>)),
                Publish (Some (event_cpu
                  \<lparr>Timestamp := 2502,
                   Event_Check := Some (check_cpu
                     \<lparr>Output := ''Last check execution was 1500 seconds ago'',
                      Status := 1, State := ''failing'', Executed := 2501\<rparr>)\<rparr>))]\<rparr>)"
    using c n r
    by (simp add: handleFailure_def Let_def u t x f i record_call_def daemon_idle_def)
  have d: "is_int64_difference 1500 2500 (Executed check_cpu)"
    by (simp add: is_int64_difference_def x)
  have rd: "read_decimal ''1500'' = Some 1500"
    by (simp add: read_decimal_def read_digits_def is_digit_def digit_value_def)
  show ?thesis
    using handleFailure_synthesized_event[OF c n g c, of sched_live daemon_idle] v d rd
    by simp
qed

section \<open>Draining the keepalive channel\<close>



lemma chan_after_closed [simp]: "closed (chan_after t ch) = closed ch"
  by (simp add: chan_after_def)









section \<open>Wrapping and unwrapping entity configs\<close>

lemma HasPrefix_append [simp]: "strings_HasPrefix (p @ k) p"
  by (simp add: strings_HasPrefix_def)

lemma TrimPrefix_append [simp]: "strings_TrimPrefix (p @ k) p = k"
  by (simp add: strings_TrimPrefix_def)

lemma HasPrefix_decompose: "strings_HasPrefix k p \<Longrightarrow> k = p @ strings_TrimPrefix k p"
  by (simp add: strings_TrimPrefix_def strings_HasPrefix_def)
     (metis append_take_drop_id)

lemma selector_fold_lookup:
  "distinct (map fst l) \<Longrightarrow>
   map_of (foldl (\<lambda>m (k, v). AList.update (p @ k) v m) acc l) x =
     (case (if strings_HasPrefix x p then map_of l (strings_TrimPrefix x p) else None) of
        Some v \<Rightarrow> Some v
      | None \<Rightarrow> map_of acc x)"
proof (induction l arbitrary: acc)
  case Nil
  then show ?case by simp
next
  case (Cons kv l)
  obtain k v where kv: "kv = (k, v)" by (cases kv)
  from Cons.prems kv have d: "distinct (map fst l)" and nk: "map_of l k = None"
    by (auto simp: map_of_eq_None_iff)
  have step: "map_of (foldl (\<lambda>m (k, v). AList.update (p @ k) v m) acc (kv # l)) x =
     (case (if strings_HasPrefix x p then map_of l (strings_TrimPrefix x p) else None) of
        Some v \<Rightarrow> Some v
      | None \<Rightarrow> ((map_of acc)(p @ k \<mapsto> v)) x)"
    using Cons.IH[OF d, of "AList.update (p @ k) v acc"] kv
    by (simp add: update_conv' cong: option.case_cong)
  show ?case
  proof (cases "x = p @ k")
    case True
    with kv nk show ?thesis unfolding step by (simp cong: option.case_cong)
  next
    case False
    then have "strings_HasPrefix x p \<Longrightarrow> strings_TrimPrefix x p \<noteq> k"
      using HasPrefix_decompose by blast
    with kv False show ?thesis unfolding step by (simp cong: option.case_cong)
  qed
qed

lemma labels_fold_lookup:
  "distinct (map fst sel) \<Longrightarrow>
   map_of (foldl (\<lambda>labels (k, v).
                    if strings_HasPrefix k p
                    then AList.update (strings_TrimPrefix k p) v labels
                    else labels) acc sel) y =
     (case map_of sel (p @ y) of Some v \<Rightarrow> Some v | None \<Rightarrow> map_of acc y)"
proof (induction sel arbitrary: acc)
  case Nil
  then show ?case by simp
next
  case (Cons kv sel)
  obtain k v where kv: "kv = (k, v)" by (cases kv)
  from Cons.prems kv have d: "distinct (map fst sel)" and nk: "map_of sel k = None"
    by (auto simp: map_of_eq_None_iff)
  let ?f = "\<lambda>labels (k, v). if strings_HasPrefix k p
                    then AList.update (strings_TrimPrefix k p) v labels else labels"
  show ?case
  proof (cases "strings_HasPrefix k p")
    case False
    then have "k \<noteq> p @ y" by auto
    moreover have "map_of (foldl ?f acc (kv # sel)) y =
        (case map_of sel (p @ y) of Some v \<Rightarrow> Some v | None \<Rightarrow> map_of acc y)"
      using Cons.IH[OF d, of acc] kv False by simp
    ultimately show ?thesis using kv by simp
  next
    case True
    have step: "map_of (foldl ?f acc (kv # sel)) y =
        (case map_of sel (p @ y) of Some v \<Rightarrow> Some v
         | None \<Rightarrow> ((map_of acc)(strings_TrimPrefix k p \<mapsto> v)) y)"
      using Cons.IH[OF d, of "AList.update (strings_TrimPrefix k p) v acc"] kv True
      by (simp add: update_conv' cong: option.case_cong)
    show ?thesis
    proof (cases "k = p @ y")
      case eq: True
      with kv nk show ?thesis unfolding step by (simp cong: option.case_cong)
    next
      case ne: False
      then have "strings_TrimPrefix k p \<noteq> y"
        using HasPrefix_decompose[OF True] by auto
      with kv ne show ?thesis unfolding step by (simp cong: option.case_cong)
    qed
  qed
qed

lemma labels_roundtrip_gen:
  assumes "distinct (map fst labels)" and "distinct (map fst sel)"
    and "map_of sel = map_of (foldl (\<lambda>m (k, v). AList.update (p @ k) v m) [] labels)"
  shows "map_of (foldl (\<lambda>labels (k, v).
                    if strings_HasPrefix k p
                    then AList.update (strings_TrimPrefix k p) v labels
                    else labels) [] sel) = map_of labels"
proof
  fix y
  show "map_of (foldl (\<lambda>labels (k, v).
                    if strings_HasPrefix k p
                    then AList.update (strings_TrimPrefix k p) v labels
                    else labels) [] sel) y = map_of labels y"
    unfolding labels_fold_lookup[OF assms(2)] assms(3) selector_fold_lookup[OF assms(1)]
    by (simp split: option.splits)
qed

lemma labels_of_selectorMap:
  assumes "distinct (map fst labels)" and "distinct (map fst sel)"
    and "map_of sel = map_of (selectorMap_of (Some labels))"
  shows "map_of (labels_of (Some sel)) = map_of labels"
  using assms(3) unfolding labels_of_def selectorMap_of_def range_of_def option.case
  by (rule labels_roundtrip_gen[OF assms(1,2)])

text \<open>
  C10. For every entity config whose labels and annotations are not nil, with a JSON codec
  that decodes what it encoded for the selector map and for the annotations:
  \<open>WrapEntityConfig\<close> followed by \<open>Unwrap\<close> succeeds and yields a config with the same
  namespace, name, creator, entity class, user, subscriptions, deregister flag,
  deregistration handler, keepalive handlers and redact list, and with the same labels and
  annotations as maps.
\<close>

theorem wrap_unwrap_roundtrip:
  assumes "Metadata cfg = Some meta" and "Labels meta = Some labels"
    and "Annotations meta = Some annotations"
    and "distinct (map fst labels)"
    and "json_roundtrips j (selectorMap_of (Some labels))"
    and "json_roundtrips j annotations"
  shows "\<exists>wrapper cfg' meta' labels' annotations'.
           WrapEntityConfig j cfg = Returns wrapper
         \<and> Unwrap j wrapper = (cfg', None)
         \<and> Metadata cfg' = Some meta'
         \<and> Meta_Namespace meta' = Meta_Namespace meta
         \<and> Meta_Name meta' = Meta_Name meta
         \<and> CreatedBy meta' = CreatedBy meta
         \<and> Labels meta' = Some labels' \<and> map_of labels' = map_of labels
         \<and> Annotations meta' = Some annotations' \<and> map_of annotations' = map_of annotations
         \<and> Config_EntityClass cfg' = Config_EntityClass cfg
         \<and> User cfg' = User cfg
         \<and> Subscriptions cfg' = Subscriptions cfg
         \<and> Deregister cfg' = Deregister cfg
         \<and> Deregistration_Handler cfg' = Deregistration_Handler cfg
         \<and> KeepaliveHandlers cfg' = KeepaliveHandlers cfg
         \<and> Redact cfg' = Redact cfg"
proof -
  from assms(5) obtain sel where
    sel: "json_Unmarshal j (json_Marshal j (Some (selectorMap_of (Some labels)))) = Inr (Some sel)"
      "distinct (map fst sel)" "map_of sel = map_of (selectorMap_of (Some labels))"
    unfolding json_roundtrips_def by blast
  from assms(6) obtain ann where
    ann: "json_Unmarshal j (json_Marshal j (Some annotations)) = Inr (Some ann)"
      "map_of ann = map_of annotations"
    unfolding json_roundtrips_def by blast
  have l: "map_of (labels_of (Some sel)) = map_of labels"
    by (rule labels_of_selectorMap[OF assms(4) sel(2,3)])
  have w: "WrapEntityConfig j cfg = Returns
            \<lparr>W_Namespace = Meta_Namespace meta,
             W_Name = Meta_Name meta,
             W_Selectors = json_Marshal j (Some (selectorMap_of (Some labels))),
             W_Annotations = json_Marshal j (Some annotations),
             W_CreatedBy = CreatedBy meta,
             W_EntityClass = Config_EntityClass cfg,
             W_User = User cfg,
             W_Subscriptions = Subscriptions cfg,
             W_Deregister = Deregister cfg,
             W_Deregistration = Deregistration_Handler cfg,
             W_KeepaliveHandlers = KeepaliveHandlers cfg,
             W_Redact = Redact cfg\<rparr>"
    using assms(1-3) by (simp add: WrapEntityConfig_def)
  show ?thesis
    unfolding w
    by (simp add: Unwrap_def unwrapIntoEntityConfig_def sel(1) ann l Let_def)
qed

theorem wrap_unwrap_roundtrip_witness:
  "WrapEntityConfig json_id cfg_web =
     Returns \<lparr>W_Namespace = ''default'', W_Name = ''web'',
              W_Selectors = Some [(''labels.region'', ''eu'')],
              W_Annotations = Some [(''owner'', ''ops'')],
              W_CreatedBy = ''admin'', W_EntityClass = ''agent'', W_User = ''agent'',
              W_Subscriptions = [''linux''], W_Deregister = True, W_Deregistration = ''dereg'',
              W_KeepaliveHandlers = [''slack''], W_Redact = [''password'']\<rparr>
   \<and> Unwrap json_id
        \<lparr>W_Namespace = ''default'', W_Name = ''web'',
         W_Selectors = Some [(''labels.region'', ''eu'')],
         W_Annotations = Some [(''owner'', ''ops'')],
         W_CreatedBy = ''admin'', W_EntityClass = ''agent'', W_User = ''agent'',
         W_Subscriptions = [''linux''], W_Deregister = True, W_Deregistration = ''dereg'',
         W_KeepaliveHandlers = [''slack''], W_Redact = [''password'']\<rparr>
       = (cfg_web, None)"
proof -
  have r: "\<And>m. json_roundtrips json_id m \<longleftrightarrow> distinct (map fst m)"
    by (auto simp: json_roundtrips_def json_id_def)
  have s: "selectorMap_of (Some [(''region'', ''eu'')]) = [(''labels.region'', ''eu'')]"
    by (simp add: selectorMap_of_def range_of_def)
  have m: "Metadata cfg_web = Some \<lparr>Meta_Namespace = ''default'', Meta_Name = ''web'',
                        Labels = Some [(''region'', ''eu'')],
                        Annotations = Some [(''owner'', ''ops'')],
                        CreatedBy = ''admin''\<rparr>"
    by (simp add: cfg_web_def)
  have v: ?thesis
    by (simp add: WrapEntityConfig_def Unwrap_def unwrapIntoEntityConfig_def cfg_web_def
        json_id_def selectorMap_of_def labels_of_def range_of_def strings_HasPrefix_def
        strings_TrimPrefix_def)
  show ?thesis
    using wrap_unwrap_roundtrip[OF m, of "[(''region'', ''eu'')]" "[(''owner'', ''ops'')]" json_id]
      v by (simp add: r s)
qed

end
